theory Spec2Isabelle
  imports Complex_Main
begin

section \<open>Synthetic YOLO data generator: the compositing and label pipeline\<close>

text \<open>
  A shallow embedding of \<^verbatim>\<open>src/train/generate_dataset.py\<close>. A Python integer is an
  \<open>int\<close>. A finite float is the \<open>real\<close> it denotes, and every float operation ends
  with the rounding of IEEE 754 (to the nearest double, ties to even), written \<open>fl64\<close>;
  the cast to \<^verbatim>\<open>float32\<close> is \<open>fl32\<close>. Infinities and NaN are not values of the
  model; where an infinite double makes Python raise (\<^verbatim>\<open>int\<close> of an infinite product) the
  model returns the error. The sides of an image are machine integers, so their
  conversion to a double is exact.

  The Pillow image operations, the \<^verbatim>\<open>random\<close> module and numpy are library code: they
  enter as the fields of an environment record, and the state of the random source is
  threaded through every draw in the order the source makes them. The arithmetic of the
  geometry code (the quadrilateral, the linear system, the matrix product and the
  perspective divide) is taken from the environment too, because the specification
  states the property of the warp over exact arithmetic: the environment gives the
  rounding of a float operation, the cast to \<^verbatim>\<open>float32\<close> and the product
  \<^verbatim>\<open>h @ vec\<close>, which are \<open>fl64\<close>, \<open>fl32\<close> and the rounded product for the program
  and the exact ones for that reading.
\<close>

subsection \<open>Values, errors and small helpers\<close>

type_synonym point = "real \<times> real"
type_synonym bbox = "real \<times> real \<times> real \<times> real"
type_synonym mat3 = "(real \<times> real \<times> real) \<times> (real \<times> real \<times> real) \<times> (real \<times> real \<times> real)"

datatype error =
    InvalidCorrespondenceCount  \<comment> \<open>\<^verbatim>\<open>ValueError("Need 4 point pairs for homography.")\<close>\<close>
  | ReshapeError                \<comment> \<open>\<^verbatim>\<open>reshape(3, 3)\<close> of an array that has not 9 entries\<close>
  | ZeroDivisionError           \<comment> \<open>a division whose divisor is 0\<close>
  | OverflowError               \<comment> \<open>\<^verbatim>\<open>int\<close> of an infinite float\<close>
  | NoMinimaps                  \<comment> \<open>\<^verbatim>\<open>SystemExit\<close>: the minimap pool is empty\<close>
  | NoChampions                 \<comment> \<open>\<^verbatim>\<open>SystemExit\<close>: the champion pool is empty\<close>
  | UnboundName                 \<comment> \<open>\<^verbatim>\<open>img\<close> or \<^verbatim>\<open>bbox\<close> read before any attempt has set it\<close>

text \<open>\<^verbatim>\<open>clamp(value, lo, hi) = max(lo, min(hi, value))\<close>.\<close>

definition clamp :: "real \<Rightarrow> real \<Rightarrow> real \<Rightarrow> real" where
  "clamp v lo hi = max lo (min hi v)"

subsection \<open>Floating point\<close>

text \<open>Rounding to the nearest integer, a tie going to the even one.\<close>

definition round_half_even :: "real \<Rightarrow> int" where
  "round_half_even y =
     (let f = \<lfloor>y\<rfloor> in
      if y - real_of_int f < 1/2 then f
      else if 1/2 < y - real_of_int f then f + 1
      else if even f then f else f + 1)"

definition pow2 :: "int \<Rightarrow> real" where
  "pow2 k = (if 0 \<le> k then 2 ^ nat k else 1 / 2 ^ nat (- k))"

text \<open>The binary exponent of a positive number: \<open>pow2 (expo x) \<le> x < pow2 (expo x + 1)\<close>.\<close>

function expo :: "real \<Rightarrow> int" where
  "expo x = (if x \<le> 0 then 0
             else if 2 \<le> x then expo (x / 2) + 1
             else if x < 1 then expo (2 * x) - 1
             else 0)"
  by pat_completeness auto
termination
proof (relation "measure (\<lambda>x. nat \<bar>\<lfloor>log 2 x\<rfloor>\<bar>)")
  show "wf (measure (\<lambda>x. nat \<bar>\<lfloor>log 2 x\<rfloor>\<bar>))" by simp
next
  fix x :: real
  assume x: "\<not> x \<le> 0" "2 \<le> x"
  then have "log 2 2 \<le> log 2 x" by (intro log_mono) simp_all
  then have "1 \<le> \<lfloor>log 2 x\<rfloor>" by simp
  moreover have "\<lfloor>log 2 (x / 2)\<rfloor> = \<lfloor>log 2 x\<rfloor> - 1" using x by (simp add: log_divide)
  ultimately show "(x / 2, x) \<in> measure (\<lambda>x. nat \<bar>\<lfloor>log 2 x\<rfloor>\<bar>)" by simp
next
  fix x :: real
  assume x: "\<not> x \<le> 0" "\<not> 2 \<le> x" "x < 1"
  then have "log 2 x < 0" by simp
  then have "\<lfloor>log 2 x\<rfloor> \<le> - 1" by linarith
  moreover have "\<lfloor>log 2 (2 * x)\<rfloor> = \<lfloor>log 2 x\<rfloor> + 1" using x by (simp add: log_mult)
  ultimately show "(2 * x, x) \<in> measure (\<lambda>x. nat \<bar>\<lfloor>log 2 x\<rfloor>\<bar>)" by simp
qed

declare expo.simps [simp del]

text \<open>
  Rounding to the nearest number with \<open>p\<close> significant bits, ties to even: the unit is
  \<open>pow2 (e - p + 1)\<close> for the exponent \<open>e\<close> of the argument, and below the least normal
  exponent \<open>emin\<close> the unit stays that of \<open>emin\<close> (gradual underflow). There is no
  largest exponent: a result of magnitude \<open>2 ^ 1024\<close> or more (for \<open>p = 53\<close>) is what a
  double holds as an infinity.
\<close>

definition ieee_round :: "int \<Rightarrow> int \<Rightarrow> real \<Rightarrow> real" where
  "ieee_round p emin x =
     (if x = 0 then 0
      else
        let q = pow2 (max emin (expo \<bar>x\<bar>) - p + 1)
        in sgn x * (real_of_int (round_half_even (\<bar>x\<bar> / q)) * q))"

definition fl64 :: "real \<Rightarrow> real" where
  "fl64 = ieee_round 53 (- 1022)"

definition fl32 :: "real \<Rightarrow> real" where
  "fl32 = ieee_round 24 (- 126)"

text \<open>Truncation towards zero, and Python's \<^verbatim>\<open>int(x)\<close> on a float, which raises on an infinity.\<close>

definition trunc :: "real \<Rightarrow> int" where
  "trunc r = (if r < 0 then - \<lfloor>- r\<rfloor> else \<lfloor>r\<rfloor>)"

definition py_int :: "real \<Rightarrow> error + int" where
  "py_int r = (if 2 ^ 1024 \<le> \<bar>r\<bar> then Inl OverflowError else Inr (trunc r))"

text \<open>
  The number that the format \<^verbatim>\<open>:.6f\<close> prints for a double: its value rounded to six
  decimals, ties to even.
\<close>

definition fmt6 :: "real \<Rightarrow> real" where
  "fmt6 v = real_of_int (round_half_even (v * 10 ^ 6)) / 10 ^ 6"

text \<open>\<^verbatim>\<open>math.pi\<close> is a double: the one nearest to \<open>\<pi>\<close>, written here as a fraction.\<close>

definition math_pi :: real where
  "math_pi = 884279719003555 / 281474976710656"

text \<open>Python's true division: a zero divisor raises, the quotient is rounded.\<close>

definition py_div :: "real \<Rightarrow> real \<Rightarrow> error + real" where
  "py_div a b = (if b = 0 then Inl ZeroDivisionError else Inr (fl64 (a / b)))"

text \<open>Sequencing of steps that may raise: the first error ends the computation.\<close>

definition err_bind :: "error + 'a \<Rightarrow> ('a \<Rightarrow> error + 'b) \<Rightarrow> error + 'b" where
  "err_bind m f = (case m of Inl e \<Rightarrow> Inl e | Inr v \<Rightarrow> f v)"

subsection \<open>The label encoder (\<^verbatim>\<open>save_yolo_label\<close>)\<close>

text \<open>
  The content of one label line, \<^verbatim>\<open>"{class_id} {cx:.6f} {cy:.6f} {w:.6f} {h:.6f}"\<close>:
  the record keeps the five numbers that the line prints.
\<close>

record label =
  l_class :: int
  l_cx :: real
  l_cy :: real
  l_w :: real
  l_h :: real

text \<open>
  Lines 214 to 225 of \<^verbatim>\<open>save_yolo_label\<close>: the four clamps (a clamp returns one of
  its arguments, so it does not round), the early return (\<open>None\<close>: nothing is written),
  the four normalised quotients, each operation rounded, and their formatting to six
  decimals. Each division is a \<open>py_div\<close>, so a zero divisor would show as an error.
\<close>

definition yolo_label_line :: "bbox \<Rightarrow> int \<Rightarrow> int \<Rightarrow> error + label option" where
  "yolo_label_line bbox img_size cid =
     (case bbox of (x1, y1, x2, y2) \<Rightarrow>
        let x1 = clamp x1 0 (real_of_int img_size);
            y1 = clamp y1 0 (real_of_int img_size);
            x2 = clamp x2 0 (real_of_int img_size);
            y2 = clamp y2 0 (real_of_int img_size)
        in if x2 \<le> x1 \<or> y2 \<le> y1 then Inr None
           else
             err_bind (py_div (fl64 (x1 + x2)) 2) (\<lambda>mx.
             err_bind (py_div mx (real_of_int img_size)) (\<lambda>vcx.
             err_bind (py_div (fl64 (y1 + y2)) 2) (\<lambda>my.
             err_bind (py_div my (real_of_int img_size)) (\<lambda>vcy.
             err_bind (py_div (fl64 (x2 - x1)) (real_of_int img_size)) (\<lambda>vw.
             err_bind (py_div (fl64 (y2 - y1)) (real_of_int img_size)) (\<lambda>vh.
               Inr (Some \<lparr>l_class = cid, l_cx = fmt6 vcx, l_cy = fmt6 vcy,
                           l_w = fmt6 vw, l_h = fmt6 vh\<rparr>))))))))"

text \<open>
  The label directory as a map from path to line. \<^verbatim>\<open>path.write_text\<close> replaces the
  file; the early return leaves the directory as it was.
\<close>

type_synonym label_files = "string \<rightharpoonup> label"

definition save_yolo_label :: "label_files \<Rightarrow> string \<Rightarrow> bbox \<Rightarrow> int \<Rightarrow> int \<Rightarrow> error + label_files" where
  "save_yolo_label fs path bbox img_size cid =
     (case yolo_label_line bbox img_size cid of
        Inl e \<Rightarrow> Inl e
      | Inr None \<Rightarrow> Inr fs
      | Inr (Some l) \<Rightarrow> Inr (fs(path \<mapsto> l)))"

text \<open>The box of \<^verbatim>\<open>save_yolo_label\<close> after its four clamps.\<close>

definition clamp_bbox :: "bbox \<Rightarrow> int \<Rightarrow> bbox" where
  "clamp_bbox bbox img_size =
     (case bbox of (x1, y1, x2, y2) \<Rightarrow>
        (clamp x1 0 (real_of_int img_size), clamp y1 0 (real_of_int img_size),
         clamp x2 0 (real_of_int img_size), clamp y2 0 (real_of_int img_size)))"

subsection \<open>The library primitives\<close>

text \<open>
  Pillow images are opaque (\<open>'i\<close>); the state of the \<^verbatim>\<open>random\<close> module is \<open>'g\<close>.
  \<open>im_blend_pattern img freq angle alpha\<close> stands for lines 69 to 76 of
  \<^verbatim>\<open>add_moire\<close> (the sine field and \<^verbatim>\<open>Image.blend\<close>), and
  \<open>im_glare_overlay img cx cy radius alpha\<close> for lines 81, 82 and 87 to 91 of
  \<^verbatim>\<open>add_glare\<close> (the blurred ellipse and \<^verbatim>\<open>alpha_composite\<close>).
  \<open>float_op\<close> is the rounding that ends a float operation of the geometry code,
  \<open>np_float32\<close> the cast of \<^verbatim>\<open>np.array(..., dtype=np.float32)\<close> and \<open>np_matvec\<close> the
  product \<^verbatim>\<open>h @ vec\<close>.
\<close>

record ('i, 'g) env =
  im_size :: "'i \<Rightarrow> int \<times> int"
  im_mode :: "'i \<Rightarrow> string"
  im_convert :: "'i \<Rightarrow> string \<Rightarrow> 'i"
  im_open :: "string \<Rightarrow> 'i"
  im_resize :: "'i \<Rightarrow> int \<times> int \<Rightarrow> 'i"
  im_paste :: "'i \<Rightarrow> 'i \<Rightarrow> int \<times> int \<Rightarrow> 'i"
  im_transform :: "'i \<Rightarrow> int \<times> int \<Rightarrow> real list \<Rightarrow> 'i"
  im_blend_pattern :: "'i \<Rightarrow> real \<Rightarrow> real \<Rightarrow> real \<Rightarrow> 'i"
  im_glare_overlay :: "'i \<Rightarrow> int \<Rightarrow> int \<Rightarrow> int \<Rightarrow> int \<Rightarrow> 'i"
  im_brightness :: "'i \<Rightarrow> real \<Rightarrow> 'i"
  im_contrast :: "'i \<Rightarrow> real \<Rightarrow> 'i"
  rnd_uniform :: "real \<Rightarrow> real \<Rightarrow> 'g \<Rightarrow> real \<times> 'g"
  rnd_randint :: "int \<Rightarrow> int \<Rightarrow> 'g \<Rightarrow> int \<times> 'g"
  rnd_random :: "'g \<Rightarrow> real \<times> 'g"
  rnd_choice :: "string list \<Rightarrow> 'g \<Rightarrow> string \<times> 'g"
  np_lstsq :: "real list list \<Rightarrow> real list \<Rightarrow> real list"
  float_op :: "real \<Rightarrow> real"
  np_float32 :: "real \<Rightarrow> real"
  np_matvec :: "mat3 \<Rightarrow> real \<times> real \<times> real \<Rightarrow> real \<times> real \<times> real"

subsection \<open>The compositor helpers\<close>

definition pil_to_rgb :: "('i, 'g) env \<Rightarrow> 'i \<Rightarrow> 'i" where
  "pil_to_rgb E img = (if im_mode E img \<noteq> ''RGB'' then im_convert E img ''RGB'' else img)"

text \<open>\<^verbatim>\<open>bg.paste\<close> changes \<^verbatim>\<open>bg\<close> in place; the model returns the new canvas.\<close>

definition alpha_paste :: "('i, 'g) env \<Rightarrow> 'i \<Rightarrow> 'i \<Rightarrow> int \<times> int \<Rightarrow> 'i" where
  "alpha_paste E bg fg pos =
     (let fg = (if im_mode E fg \<noteq> ''RGBA'' then im_convert E fg ''RGBA'' else fg)
      in im_paste E bg fg pos)"

text \<open>
  The divisions are guarded by the early return on a zero side. The quotient of the two
  integers is rounded once, the product with the other side once more, and \<^verbatim>\<open>int\<close>
  truncates the rounded product.
\<close>

definition resize_keep_aspect :: "('i, 'g) env \<Rightarrow> 'i \<Rightarrow> int \<Rightarrow> error + 'i" where
  "resize_keep_aspect E img target_long =
     (case im_size E img of (w, h) \<Rightarrow>
        if w = 0 \<or> h = 0 then Inr img
        else if w \<ge> h
        then err_bind (py_int (fl64 (real_of_int h *
                         fl64 (real_of_int target_long / real_of_int w)))) (\<lambda>new_h.
               Inr (im_resize E img (max 1 target_long, max 1 new_h)))
        else err_bind (py_int (fl64 (real_of_int w *
                         fl64 (real_of_int target_long / real_of_int h)))) (\<lambda>new_w.
               Inr (im_resize E img (max 1 new_w, max 1 target_long))))"

subsection \<open>The photometric overlays\<close>

text \<open>
  A decimal literal is the double nearest to it. The sides of an image are machine
  integers, so the products truncated here are finite and \<^verbatim>\<open>int\<close> cannot raise.
\<close>

definition add_moire :: "('i, 'g) env \<Rightarrow> 'i \<Rightarrow> real \<Rightarrow> 'g \<Rightarrow> 'i \<times> 'g" where
  "add_moire E img strength g =
     (case rnd_uniform E 8 16 g of (freq, g) \<Rightarrow>
      case rnd_uniform E 0 math_pi g of (angle, g) \<Rightarrow>
        (im_blend_pattern E img freq angle (clamp strength 0 (fl64 0.3)), g))"

definition add_glare :: "('i, 'g) env \<Rightarrow> 'i \<Rightarrow> real \<Rightarrow> 'g \<Rightarrow> 'i \<times> 'g" where
  "add_glare E img strength g =
     (case im_size E img of (w, h) \<Rightarrow>
      case rnd_randint E (trunc (fl64 (real_of_int w * fl64 0.1)))
                         (trunc (fl64 (real_of_int w * fl64 0.9))) g of (cx, g) \<Rightarrow>
      case rnd_randint E (trunc (fl64 (real_of_int h * fl64 0.1)))
                         (trunc (fl64 (real_of_int h * fl64 0.9))) g of (cy, g) \<Rightarrow>
      case rnd_randint E (trunc (fl64 (real_of_int (min w h) * fl64 0.15)))
                         (trunc (fl64 (real_of_int (min w h) * fl64 0.35))) g of (radius, g) \<Rightarrow>
        (im_glare_overlay E img cx cy radius
           (trunc (fl64 (255 * clamp strength (fl64 0.1) (fl64 0.6)))), g))"

subsection \<open>The geometry solver\<close>

text \<open>
  The eight draws are made left to right, as the list display evaluates them. The two
  products and the four differences are float operations of the geometry code.
\<close>

definition random_perspective_points ::
  "('i, 'g) env \<Rightarrow> int \<Rightarrow> int \<Rightarrow> real \<Rightarrow> 'g \<Rightarrow> (point list \<times> point list) \<times> 'g" where
  "random_perspective_points E w h max_shift g =
     (let rw = real_of_int w; rh = real_of_int h;
          src = [(0, 0), (rw, 0), (rw, rh), (0, rh)];
          dx = float_op E (rw * max_shift);
          dy = float_op E (rh * max_shift)
      in case rnd_uniform E 0 dx g of (a0, g) \<Rightarrow>
         case rnd_uniform E 0 dy g of (b0, g) \<Rightarrow>
         case rnd_uniform E 0 dx g of (a1, g) \<Rightarrow>
         case rnd_uniform E 0 dy g of (b1, g) \<Rightarrow>
         case rnd_uniform E 0 dx g of (a2, g) \<Rightarrow>
         case rnd_uniform E 0 dy g of (b2, g) \<Rightarrow>
         case rnd_uniform E 0 dx g of (a3, g) \<Rightarrow>
         case rnd_uniform E 0 dy g of (b3, g) \<Rightarrow>
           ((src, [(a0, b0), (float_op E (rw - a1), b1),
                   (float_op E (rw - a2), float_op E (rh - b2)),
                   (a3, float_op E (rh - b3))]), g))"

text \<open>
  The two rows and the two right-hand sides that one correspondence contributes, as
  the arrays of lines 119 and 120 hold them: each product is a float operation, and
  every entry is cast to \<^verbatim>\<open>float32\<close>.
\<close>

definition pair_rows :: "('i, 'g) env \<Rightarrow> point \<times> point \<Rightarrow> real list list" where
  "pair_rows E c = (case c of ((x, y), (u, v)) \<Rightarrow>
     map (map (np_float32 E))
       [[x, y, 1, 0, 0, 0, float_op E (- u * x), float_op E (- u * y)],
        [0, 0, 0, x, y, 1, float_op E (- v * x), float_op E (- v * y)]])"

definition pair_rhs :: "('i, 'g) env \<Rightarrow> point \<times> point \<Rightarrow> real list" where
  "pair_rhs E c = (case c of ((x, y), (u, v)) \<Rightarrow> map (np_float32 E) [u, v])"

definition homography_system ::
  "('i, 'g) env \<Rightarrow> point list \<Rightarrow> point list \<Rightarrow> real list list \<times> real list" where
  "homography_system E src dst =
     (concat (map (pair_rows E) (zip src dst)), concat (map (pair_rhs E) (zip src dst)))"

text \<open>\<^verbatim>\<open>np.append(h, 1.0).reshape(3, 3)\<close>: only an array of nine entries reshapes.\<close>

definition reshape33 :: "real list \<Rightarrow> error + mat3" where
  "reshape33 xs =
     (if length xs = 9
      then Inr ((xs ! 0, xs ! 1, xs ! 2), (xs ! 3, xs ! 4, xs ! 5), (xs ! 6, xs ! 7, xs ! 8))
      else Inl ReshapeError)"

definition solve_homography :: "('i, 'g) env \<Rightarrow> point list \<Rightarrow> point list \<Rightarrow> error + mat3" where
  "solve_homography E src dst =
     (if length src \<noteq> 4 \<or> length dst \<noteq> 4 then Inl InvalidCorrespondenceCount
      else case homography_system E src dst of (a, b) \<Rightarrow>
        reshape33 (np_lstsq E a b @ [1]))"

definition entry22 :: "mat3 \<Rightarrow> real" where
  "entry22 m = (case m of (r0, r1, (g, i, j)) \<Rightarrow> j)"

definition flatten33 :: "mat3 \<Rightarrow> real list" where
  "flatten33 m = (case m of ((a, b, c), (d, e, f), (g, i, j)) \<Rightarrow> [a, b, c, d, e, f, g, i, j])"

text \<open>\<^verbatim>\<open>(h / h[2, 2]).reshape(-1)[:8].tolist()\<close>.\<close>

definition perspective_coeffs :: "('i, 'g) env \<Rightarrow> point list \<Rightarrow> point list \<Rightarrow> error + real list" where
  "perspective_coeffs E dst src =
     err_bind (solve_homography E dst src)
       (\<lambda>h. Inr (take 8 (map (\<lambda>v. float_op E (v / entry22 h)) (flatten33 h))))"

text \<open>The product of a matrix and a vector over exact arithmetic.\<close>

definition matvec3 :: "mat3 \<Rightarrow> real \<times> real \<times> real \<Rightarrow> real \<times> real \<times> real" where
  "matvec3 m v =
     (case m of ((a, b, c), (d, e, f), (g, i, j)) \<Rightarrow>
      case v of (x, y, z) \<Rightarrow>
        (a * x + b * y + c * z, d * x + e * y + f * z, g * x + i * y + j * z))"

text \<open>The quotient of two numpy doubles; a zero divisor shows as an error.\<close>

definition np_div :: "('i, 'g) env \<Rightarrow> real \<Rightarrow> real \<Rightarrow> error + real" where
  "np_div E a b = (if b = 0 then Inl ZeroDivisionError else Inr (float_op E (a / b)))"

text \<open>
  One turn of the loop of \<^verbatim>\<open>apply_homography\<close>: the point is cast to \<^verbatim>\<open>float32\<close>
  (line 134), multiplied by the matrix (line 135), and either appended as it came (the
  uncast \<^verbatim>\<open>x\<close> and \<^verbatim>\<open>y\<close>) or divided by its weight. Each quotient is an \<open>np_div\<close>,
  so a division by a zero weight would show as \<open>Inl ZeroDivisionError\<close>.
\<close>

definition map_point :: "('i, 'g) env \<Rightarrow> mat3 \<Rightarrow> point \<Rightarrow> error + point" where
  "map_point E h p =
     (case p of (x, y) \<Rightarrow>
      case np_matvec E h (np_float32 E x, np_float32 E y, np_float32 E 1) of (tx, ty, tz) \<Rightarrow>
        if tz = 0 then Inr (x, y)
        else err_bind (np_div E tx tz) (\<lambda>qx.
             err_bind (np_div E ty tz) (\<lambda>qy. Inr (qx, qy))))"

fun apply_homography :: "('i, 'g) env \<Rightarrow> point list \<Rightarrow> mat3 \<Rightarrow> error + point list" where
  "apply_homography E [] h = Inr []"
| "apply_homography E (p # ps) h =
     err_bind (map_point E h p) (\<lambda>q.
     err_bind (apply_homography E ps h) (\<lambda>out. Inr (q # out)))"

subsection \<open>The augmenter\<close>

text \<open>Python's \<^verbatim>\<open>min\<close> and \<^verbatim>\<open>max\<close> of a list; they are called on four values.\<close>

fun min_of :: "real list \<Rightarrow> real" where
  "min_of (x # xs) = fold min xs x"

fun max_of :: "real list \<Rightarrow> real" where
  "max_of (x # xs) = fold max xs x"

text \<open>Lines 153 to 162: the perspective branch of \<^verbatim>\<open>augment_image\<close>.\<close>

definition augment_perspective ::
  "('i, 'g) env \<Rightarrow> 'i \<Rightarrow> bbox \<Rightarrow> 'g \<Rightarrow> error + ('i \<times> bbox) \<times> 'g" where
  "augment_perspective E img bbox g =
     (case im_size E img of (w, h) \<Rightarrow>
      case bbox of (x1, y1, x2, y2) \<Rightarrow>
      case random_perspective_points E w h (float_op E 0.08) g of ((src, dst), g) \<Rightarrow>
      err_bind (perspective_coeffs E dst src) (\<lambda>coeffs.
        let img = im_transform E img (w, h) coeffs in
        err_bind (solve_homography E src dst) (\<lambda>h_mat.
        let pts = [(x1, y1), (x2, y1), (x2, y2), (x1, y2)] in
        err_bind (apply_homography E pts h_mat) (\<lambda>tpts.
        let xs = map fst tpts; ys = map snd tpts
        in Inr ((img, (min_of xs, min_of ys, max_of xs, max_of ys)), g)))))"

text \<open>Lines 164 to 173: moire, glare, brightness and contrast. The box is not an argument.\<close>

definition augment_photometric ::
  "('i, 'g) env \<Rightarrow> 'i \<Rightarrow> bool \<Rightarrow> bool \<Rightarrow> 'g \<Rightarrow> 'i \<times> 'g" where
  "augment_photometric E img apply_moire_flag apply_glare_flag g =
     (case (if apply_moire_flag
            then (case rnd_uniform E (fl64 0.05) (fl64 0.12) g of (s, g) \<Rightarrow> add_moire E img s g)
            else (img, g)) of (img, g) \<Rightarrow>
      case (if apply_glare_flag
            then (case rnd_uniform E (fl64 0.2) 0.5 g of (s, g) \<Rightarrow> add_glare E img s g)
            else (img, g)) of (img, g) \<Rightarrow>
      case rnd_random E g of (r, g) \<Rightarrow>
      case (if r < 0.5
            then (case rnd_uniform E (fl64 0.85) (fl64 1.15) g of (f, g) \<Rightarrow>
                    (im_brightness E img f, g))
            else (img, g)) of (img, g) \<Rightarrow>
      case rnd_random E g of (r, g) \<Rightarrow>
      case (if r < 0.5
            then (case rnd_uniform E (fl64 0.9) (fl64 1.2) g of (f, g) \<Rightarrow>
                    (im_contrast E img f, g))
            else (img, g)) of (img, g) \<Rightarrow>
        (img, g))"

definition augment_image ::
  "('i, 'g) env \<Rightarrow> 'i \<Rightarrow> bbox \<Rightarrow> bool \<Rightarrow> bool \<Rightarrow> bool \<Rightarrow> 'g \<Rightarrow> error + ('i \<times> bbox) \<times> 'g" where
  "augment_image E img bbox apply_perspective apply_moire_flag apply_glare_flag g =
     (case (if apply_perspective then augment_perspective E img bbox g
            else Inr ((img, bbox), g)) of
        Inl e \<Rightarrow> Inl e
      | Inr ((img, bbox), g) \<Rightarrow>
          (case augment_photometric E img apply_moire_flag apply_glare_flag g of (img, g) \<Rightarrow>
             Inr ((img, bbox), g)))"

subsection \<open>One composite (\<^verbatim>\<open>generate_one\<close>)\<close>

text \<open>
  Lines 197 and 198: the long side handed to \<^verbatim>\<open>resize_keep_aspect\<close>. The product is
  a float operation, and \<^verbatim>\<open>int\<close> raises when it is infinite.
\<close>

definition resize_target :: "int \<Rightarrow> int \<Rightarrow> real \<Rightarrow> error + int" where
  "resize_target cw ch scale =
     err_bind (py_int (fl64 (real_of_int (min cw ch) * scale))) (\<lambda>target.
       Inr (max 8 target))"

text \<open>Lines 201 and 202: the upper end of the range a placement offset is drawn from.\<close>

definition placement_max :: "int \<Rightarrow> int \<Rightarrow> int" where
  "placement_max canvas fgside = max 1 (canvas - fgside)"

definition generate_one ::
  "('i, 'g) env \<Rightarrow> string \<Rightarrow> string \<Rightarrow> int \<Rightarrow> real \<times> real \<Rightarrow> bool \<Rightarrow> bool \<Rightarrow> bool \<Rightarrow> 'g
     \<Rightarrow> error + ('i \<times> bbox) \<times> 'g" where
  "generate_one E minimap_path champion_path img_size scale_range
       apply_perspective apply_moire_flag apply_glare_flag g =
     (let bg = pil_to_rgb E (im_open E minimap_path);
          bg = (if img_size > 0 then im_resize E bg (img_size, img_size) else bg)
      in case im_size E bg of (cw, ch) \<Rightarrow>
         let fg = im_open E champion_path;
             fg = (if im_mode E fg \<noteq> ''RGBA'' then im_convert E fg ''RGBA'' else fg)
         in case rnd_uniform E (fst scale_range) (snd scale_range) g of (scale, g) \<Rightarrow>
            err_bind (resize_target cw ch scale) (\<lambda>target.
            err_bind (resize_keep_aspect E fg target) (\<lambda>fg.
              case im_size E fg of (fw, fh) \<Rightarrow>
              let max_x = placement_max cw fw;
                  max_y = placement_max ch fh
              in case rnd_randint E 0 max_x g of (x, g) \<Rightarrow>
                 case rnd_randint E 0 max_y g of (y, g) \<Rightarrow>
                 let bg = alpha_paste E bg fg (x, y);
                     bbox = (real_of_int x, real_of_int y,
                             real_of_int (x + fw), real_of_int (y + fh))
                 in augment_image E bg bbox apply_perspective apply_moire_flag apply_glare_flag g)))"

subsection \<open>The orchestrator (\<^verbatim>\<open>main\<close>)\<close>

text \<open>The parsed options that \<^verbatim>\<open>main\<close> reads, each field named after its option.\<close>

record args =
  arg_output_dir :: string
  arg_count :: int
  arg_img_size :: int
  arg_min_scale :: real
  arg_max_scale :: real
  arg_moire_prob :: real
  arg_glare_prob :: real
  arg_perspective_prob :: real

text \<open>Lines 281 and 282: the test that ends the retry loop; each difference is rounded.\<close>

definition validate :: "bbox \<Rightarrow> bool" where
  "validate bbox =
     (case bbox of (x1, y1, x2, y2) \<Rightarrow> fl64 (x2 - x1) > 2 \<and> fl64 (y2 - y1) > 2)"

text \<open>Lines 267 to 280: the draws of one attempt and its call of \<^verbatim>\<open>generate_one\<close>.\<close>

definition one_attempt ::
  "('i, 'g) env \<Rightarrow> args \<Rightarrow> string list \<Rightarrow> string list \<Rightarrow> 'g \<Rightarrow> error + ('i \<times> bbox) \<times> 'g" where
  "one_attempt E A minimaps champions g =
     (case rnd_choice E minimaps g of (bg_path, g) \<Rightarrow>
      case rnd_choice E champions g of (fg_path, g) \<Rightarrow>
      case rnd_random E g of (r1, g) \<Rightarrow>
      case rnd_random E g of (r2, g) \<Rightarrow>
      case rnd_random E g of (r3, g) \<Rightarrow>
        generate_one E bg_path fg_path (arg_img_size A) (arg_min_scale A, arg_max_scale A)
          (r3 < arg_perspective_prob A) (r1 < arg_moire_prob A) (r2 < arg_glare_prob A) g)"

text \<open>
  The loop of lines 263 to 283, entered with the current value of \<^verbatim>\<open>tries\<close>, the
  random state, and the values of \<^verbatim>\<open>img\<close> and \<^verbatim>\<open>bbox\<close> (\<open>None\<close> while unbound).
  It returns the number of calls of \<^verbatim>\<open>generate_one\<close> it has made, and either the
  error that ended the run or the final \<^verbatim>\<open>img\<close>, \<^verbatim>\<open>bbox\<close> and random state.
\<close>

function retry_loop ::
  "('i, 'g) env \<Rightarrow> args \<Rightarrow> string list \<Rightarrow> string list \<Rightarrow> nat \<Rightarrow> 'g \<Rightarrow> ('i \<times> bbox) option
     \<Rightarrow> nat \<times> (error + ('i \<times> bbox) option \<times> 'g)" where
  "retry_loop E A minimaps champions tries g cur =
     (let tries = tries + 1 in
      if tries > 5 then (0, Inr (cur, g))
      else
        (case one_attempt E A minimaps champions g of
           Inl e \<Rightarrow> (1, Inl e)
         | Inr ((img, bbox), g) \<Rightarrow>
             if validate bbox then (1, Inr (Some (img, bbox), g))
             else (case retry_loop E A minimaps champions tries g (Some (img, bbox)) of
                     (n, r) \<Rightarrow> (n + 1, r))))"
  by pat_completeness auto
termination
  by (relation "measure (\<lambda>(E, A, minimaps, champions, tries, g, cur). 6 - tries)") auto

declare retry_loop.simps [simp del]

text \<open>\<^verbatim>\<open>f"{i:06d}"\<close> for a sample index.\<close>

fun decimal :: "nat \<Rightarrow> string" where
  "decimal n = (if n < 10 then [char_of (48 + n)]
                else decimal (n div 10) @ [char_of (48 + n mod 10)])"

definition out_name :: "nat \<Rightarrow> string" where
  "out_name i = replicate (6 - length (decimal i)) (CHR ''0'') @ decimal i"

record ('i, 'g) run_state =
  rng :: 'g
  cur_sample :: "('i \<times> bbox) option"
  image_files :: "string \<rightharpoonup> 'i"
  label_dir :: label_files

text \<open>Lines 262 to 289: the body of the loop over the sample indices.\<close>

definition process_index ::
  "('i, 'g) env \<Rightarrow> args \<Rightarrow> string list \<Rightarrow> string list \<Rightarrow> nat \<Rightarrow> ('i, 'g) run_state
     \<Rightarrow> error + ('i, 'g) run_state" where
  "process_index E A minimaps champions i st =
     (case retry_loop E A minimaps champions 0 (rng st) (cur_sample st) of
        (n, Inl e) \<Rightarrow> Inl e
      | (n, Inr (None, g)) \<Rightarrow> Inl UnboundName
      | (n, Inr (Some (img, bbox), g)) \<Rightarrow>
          let img_path = arg_output_dir A @ ''/images/'' @ out_name i @ ''.jpg'';
              label_path = arg_output_dir A @ ''/labels/'' @ out_name i @ ''.txt''
          in (case save_yolo_label (label_dir st) label_path bbox (arg_img_size A) 0 of
                Inl e \<Rightarrow> Inl e
              | Inr labels \<Rightarrow>
                  Inr \<lparr>rng = g, cur_sample = Some (img, bbox),
                       image_files = (image_files st)(img_path \<mapsto> img),
                       label_dir = labels\<rparr>))"

fun sample_loop ::
  "('i, 'g) env \<Rightarrow> args \<Rightarrow> string list \<Rightarrow> string list \<Rightarrow> nat list \<Rightarrow> ('i, 'g) run_state
     \<Rightarrow> error + ('i, 'g) run_state" where
  "sample_loop E A minimaps champions [] st = Inr st"
| "sample_loop E A minimaps champions (i # is) st =
     (case process_index E A minimaps champions i st of
        Inl e \<Rightarrow> Inl e
      | Inr st \<Rightarrow> sample_loop E A minimaps champions is st)"

text \<open>
  \<^verbatim>\<open>main\<close> after the arguments are parsed and the two pools listed:
  \<^verbatim>\<open>range(1, args.count + 1)\<close> is empty for a count below 1.
\<close>

definition main ::
  "('i, 'g) env \<Rightarrow> args \<Rightarrow> string list \<Rightarrow> string list \<Rightarrow> ('i, 'g) run_state
     \<Rightarrow> error + ('i, 'g) run_state" where
  "main E A minimaps champions st =
     (if minimaps = [] then Inl NoMinimaps
      else if champions = [] then Inl NoChampions
      else sample_loop E A minimaps champions (map nat [1..arg_count A]) st)"

subsection \<open>The acceptance test in the words of the specification\<close>

text \<open>
  The specification describes the test on the box clamped to the canvas; this is that
  wording, to be compared with \<open>validate\<close>, which is the test of the source.
\<close>

definition validate_clamped :: "bbox \<Rightarrow> int \<Rightarrow> bool" where
  "validate_clamped bbox img_size = validate (clamp_bbox bbox img_size)"

subsection \<open>Exact arithmetic\<close>

text \<open>
  The environment in which the geometry code is read over exact arithmetic: no float
  operation rounds, the cast to \<^verbatim>\<open>float32\<close> changes nothing, and \<^verbatim>\<open>h @ vec\<close> is the
  exact product.
\<close>

definition exact_arithmetic :: "('i, 'g) env \<Rightarrow> bool" where
  "exact_arithmetic E \<longleftrightarrow>
     float_op E = (\<lambda>x. x) \<and> np_float32 E = (\<lambda>x. x) \<and> np_matvec E = matvec3"

subsection \<open>What \<^verbatim>\<open>numpy.linalg.lstsq\<close> promises\<close>

text \<open>
  \<^verbatim>\<open>lstsq(a, b)\<close> returns one value per column of \<open>a\<close>, and no vector of that
  length has a smaller sum of squared residuals.
\<close>

definition dot :: "real list \<Rightarrow> real list \<Rightarrow> real" where
  "dot r h = sum_list (map2 (*) r h)"

definition residual :: "real list list \<Rightarrow> real list \<Rightarrow> real list \<Rightarrow> real" where
  "residual a b h = sum_list (map2 (\<lambda>r v. (dot r h - v)\<^sup>2) a b)"

definition least_squares :: "('i, 'g) env \<Rightarrow> real list list \<Rightarrow> real list \<Rightarrow> bool" where
  "least_squares E a b \<longleftrightarrow>
     length (np_lstsq E a b) = length (hd a) \<and>
     (\<forall>h. length h = length (hd a) \<longrightarrow> residual a b (np_lstsq E a b) \<le> residual a b h)"

subsection \<open>Quadrilaterals\<close>

text \<open>Twice the signed area of a triangle: zero exactly when the three points are collinear.\<close>

definition turn3 :: "point \<Rightarrow> point \<Rightarrow> point \<Rightarrow> real" where
  "turn3 p q r = (fst q - fst p) * (snd r - snd p) - (fst r - fst p) * (snd q - snd p)"

text \<open>A quadrilateral is non-degenerate when no three of its corners are collinear.\<close>

definition nondegenerate_quad :: "point list \<Rightarrow> bool" where
  "nondegenerate_quad q \<longleftrightarrow>
     length q = 4 \<and>
     turn3 (q ! 1) (q ! 2) (q ! 3) \<noteq> 0 \<and> turn3 (q ! 0) (q ! 2) (q ! 3) \<noteq> 0 \<and>
     turn3 (q ! 0) (q ! 1) (q ! 3) \<noteq> 0 \<and> turn3 (q ! 0) (q ! 1) (q ! 2) \<noteq> 0"

text \<open>The axis-aligned rectangle that encloses a list of points.\<close>

definition enclosing :: "point list \<Rightarrow> bbox" where
  "enclosing ps =
     (min_of (map fst ps), min_of (map snd ps), max_of (map fst ps), max_of (map snd ps))"

subsection \<open>A concrete environment for evaluation\<close>

text \<open>
  An image is reduced to its size, the random source is the list of the values that
  \<^verbatim>\<open>random()\<close> will return next (\<^verbatim>\<open>uniform(a, b)\<close> is \<^verbatim>\<open>a + (b - a) * random()\<close>
  in doubles), and the linear system is solved by Gauss-Jordan elimination on the rows
  extended by their right-hand sides. The arithmetic of the geometry code is that of
  the program: doubles, the \<^verbatim>\<open>float32\<close> cast, and a matrix product that rounds each
  product and each sum, left to right. The concrete instances below are evaluated in
  this environment; \<open>exact_env\<close> differs from it in the arithmetic of the geometry code
  and of \<^verbatim>\<open>uniform\<close>, which is exact.
\<close>

fun gauss_solve :: "nat \<Rightarrow> real list list \<Rightarrow> real list" where
  "gauss_solve 0 rows = []"
| "gauss_solve (Suc n) rows =
     (case filter (\<lambda>r. hd r \<noteq> 0) rows of
        [] \<Rightarrow> 0 # gauss_solve n (map tl rows)
      | p # _ \<Rightarrow>
          let q = map (\<lambda>v. v / hd p) p;
              rest = map (\<lambda>r. tl (map2 (\<lambda>rv qv. rv - hd r * qv) r q)) (remove1 p rows);
              xs = gauss_solve n rest
          in (last q - sum_list (map2 (*) (butlast (tl q)) xs)) # xs)"

definition exact_lstsq :: "real list list \<Rightarrow> real list \<Rightarrow> real list" where
  "exact_lstsq a b = gauss_solve (length (hd a)) (map2 (\<lambda>r v. r @ [v]) a b)"

definition draw :: "real list \<Rightarrow> real \<times> real list" where
  "draw g = (case g of [] \<Rightarrow> (0, []) | t # ts \<Rightarrow> (t, ts))"

definition matvec64 :: "mat3 \<Rightarrow> real \<times> real \<times> real \<Rightarrow> real \<times> real \<times> real" where
  "matvec64 m v =
     (case m of ((a, b, c), (d, e, f), (g, i, j)) \<Rightarrow>
      case v of (x, y, z) \<Rightarrow>
        (fl64 (fl64 (fl64 (a * x) + fl64 (b * y)) + fl64 (c * z)),
         fl64 (fl64 (fl64 (d * x) + fl64 (e * y)) + fl64 (f * z)),
         fl64 (fl64 (fl64 (g * x) + fl64 (i * y)) + fl64 (j * z))))"

definition tape_env :: "(int \<times> int, real list) env" where
  "tape_env = \<lparr>
     im_size = (\<lambda>i. i),
     im_mode = (\<lambda>i. ''RGBA''),
     im_convert = (\<lambda>i m. i),
     im_open = (\<lambda>p. if p = ''minimap'' then (512, 512)
                     else if p = ''thin'' then (100, 1) else (64, 64)),
     im_resize = (\<lambda>i s. s),
     im_paste = (\<lambda>bg fg pos. bg),
     im_transform = (\<lambda>i s c. i),
     im_blend_pattern = (\<lambda>i f a s. i),
     im_glare_overlay = (\<lambda>i x y r a. i),
     im_brightness = (\<lambda>i f. i),
     im_contrast = (\<lambda>i f. i),
     rnd_uniform = (\<lambda>a b g. case draw g of (t, g) \<Rightarrow>
                      (fl64 (a + fl64 (fl64 (b - a) * t)), g)),
     rnd_randint = (\<lambda>a b g. case draw g of (t, g) \<Rightarrow>
                      (min b (a + \<lfloor>t * real_of_int (b - a + 1)\<rfloor>), g)),
     rnd_random = draw,
     rnd_choice = (\<lambda>xs g. case draw g of (t, g) \<Rightarrow>
                     (xs ! min (length xs - 1) (nat \<lfloor>t * real (length xs)\<rfloor>), g)),
     np_lstsq = exact_lstsq,
     float_op = fl64,
     np_float32 = fl32,
     np_matvec = matvec64\<rparr>"

definition exact_env :: "(int \<times> int, real list) env" where
  "exact_env = tape_env\<lparr>
     rnd_uniform := (\<lambda>a b g. case draw g of (t, g) \<Rightarrow> (a + (b - a) * t, g)),
     float_op := (\<lambda>x. x),
     np_float32 := (\<lambda>x. x),
     np_matvec := matvec3\<rparr>"

text \<open>
  The defaults of \<^verbatim>\<open>parse_args\<close>, with the canvas side left open; \<^verbatim>\<open>type=float\<close>
  reads a decimal as the double nearest to it.
\<close>

definition default_args :: "int \<Rightarrow> args" where
  "default_args s = \<lparr>arg_output_dir = ''out'', arg_count = 1, arg_img_size = s,
     arg_min_scale = fl64 0.08, arg_max_scale = fl64 0.2,
     arg_moire_prob = fl64 0.6, arg_glare_prob = fl64 0.6, arg_perspective_prob = 0.5\<rparr>"

text \<open>
  The ten draws of an attempt in which no augmentation is switched on: two choices,
  three flags, the scale (the lower end of the range), the two offsets (both 0) and the
  two coin flips for brightness and contrast.
\<close>

definition plain_draws :: "real list" where
  "plain_draws = [0, 0, 3/4, 3/4, 3/4, 0, 0, 0, 3/4, 3/4]"

section \<open>Properties\<close>

subsection \<open>Rounding\<close>

lemma floor_log2_half: "0 < x \<Longrightarrow> \<lfloor>log 2 (x / 2)\<rfloor> = \<lfloor>log 2 x\<rfloor> - 1"
  by (simp add: log_divide)

lemma floor_log2_double: "0 < x \<Longrightarrow> \<lfloor>log 2 (2 * x)\<rfloor> = \<lfloor>log 2 x\<rfloor> + 1"
  by (simp add: log_mult)

lemma expo_log: "0 < x \<Longrightarrow> expo x = \<lfloor>log 2 x\<rfloor>"
proof (induction x rule: expo.induct)
  case (1 x)
  show ?case
  proof (cases "2 \<le> x")
    case True
    with "1.prems" "1.IH"(1) have "expo (x / 2) = \<lfloor>log 2 (x / 2)\<rfloor>" by simp
    with True "1.prems" show ?thesis
      by (subst expo.simps) (simp add: floor_log2_half)
  next
    case False
    show ?thesis
    proof (cases "x < 1")
      case True
      with False "1.prems" "1.IH"(2) have "expo (2 * x) = \<lfloor>log 2 (2 * x)\<rfloor>" by simp
      with True False "1.prems" show ?thesis
        by (subst expo.simps) (simp add: floor_log2_double)
    next
      case ge: False
      with False have "1 \<le> x" "x < 2" by simp_all
      then have "0 \<le> log 2 x" "log 2 x < 1" by (simp_all add: log_less_iff)
      then have "\<lfloor>log 2 x\<rfloor> = 0" by linarith
      with False ge "1.prems" show ?thesis
        by (subst expo.simps) simp
    qed
  qed
qed

lemma pow2_powr: "pow2 k = 2 powr real_of_int k"
  by (simp add: pow2_def powr_real_of_int inverse_eq_divide)

lemma pow2_pos [simp]: "0 < pow2 k"
  by (simp add: pow2_powr)

lemma pow2_nonneg [simp]: "0 \<le> pow2 k"
  by (simp add: pow2_powr)

lemma pow2_neq0 [simp]: "pow2 k \<noteq> 0"
  by (simp add: pow2_powr)

lemma pow2_strict_mono: "a < b \<Longrightarrow> pow2 a < pow2 b"
  by (simp add: pow2_powr)

lemma pow2_add: "pow2 (a + b) = pow2 a * pow2 b"
  by (simp add: pow2_powr powr_add)

lemma pow2_mono: "a \<le> b \<Longrightarrow> pow2 a \<le> pow2 b"
  by (simp add: pow2_powr)

lemma pow2_int: "0 \<le> k \<Longrightarrow> pow2 k = real_of_int (2 ^ nat k)"
  by (simp add: pow2_def)

lemma expo_bounds: "0 < x \<Longrightarrow> pow2 (expo x) \<le> x \<and> x < pow2 (expo x + 1)"
proof -
  assume x: "0 < x"
  have "\<lfloor>log 2 x\<rfloor> = expo x" using x by (simp add: expo_log)
  then have "2 powr real_of_int (expo x) \<le> x \<and> x < 2 powr (real_of_int (expo x) + 1)"
    using x by (simp only: floor_log_eq_powr_iff [of x 2 "expo x"]) simp
  then show ?thesis by (simp add: pow2_powr)
qed

lemma expo_unique: "0 < x \<Longrightarrow> pow2 e \<le> x \<Longrightarrow> x < pow2 (e + 1) \<Longrightarrow> expo x = e"
proof -
  assume x: "0 < x" and b: "pow2 e \<le> x" "x < pow2 (e + 1)"
  have "\<lfloor>log 2 x\<rfloor> = e"
    using x b by (subst floor_log_eq_powr_iff) (simp_all add: pow2_powr)
  with x show ?thesis by (simp add: expo_log)
qed

lemma expo_mono: "0 < x \<Longrightarrow> x \<le> y \<Longrightarrow> expo x \<le> expo y"
proof -
  assume "0 < x" "x \<le> y"
  then have "log 2 x \<le> log 2 y" by simp
  then have "\<lfloor>log 2 x\<rfloor> \<le> \<lfloor>log 2 y\<rfloor>" by (rule floor_mono)
  with \<open>0 < x\<close> \<open>x \<le> y\<close> show ?thesis by (simp add: expo_log)
qed

lemma rhe_floor_le: "\<lfloor>y\<rfloor> \<le> round_half_even y"
  by (simp add: round_half_even_def Let_def)

lemma rhe_le_ceiling: "round_half_even y \<le> \<lceil>y\<rceil>"
proof -
  have "y - real_of_int \<lfloor>y\<rfloor> \<noteq> 0 \<Longrightarrow> \<lfloor>y\<rfloor> + 1 \<le> \<lceil>y\<rceil>"
    by linarith
  moreover have "\<lfloor>y\<rfloor> \<le> \<lceil>y\<rceil>" by linarith
  ultimately show ?thesis
    by (auto simp: round_half_even_def Let_def)
qed

lemma rhe_of_int [simp]: "round_half_even (real_of_int n) = n"
  by (simp add: round_half_even_def)

lemma rhe_zero [simp]: "round_half_even 0 = 0"
  by (simp add: round_half_even_def)

lemma rhe_mono: "x \<le> y \<Longrightarrow> round_half_even x \<le> round_half_even y"
proof -
  assume xy: "x \<le> y"
  have fl: "\<lfloor>x\<rfloor> \<le> \<lfloor>y\<rfloor>" using xy by (rule floor_mono)
  show ?thesis
  proof (cases "\<lfloor>x\<rfloor> = \<lfloor>y\<rfloor>")
    case True
    with xy have "x - real_of_int \<lfloor>x\<rfloor> \<le> y - real_of_int \<lfloor>y\<rfloor>" by simp
    with True show ?thesis
      by (auto simp: round_half_even_def Let_def)
  next
    case False
    with fl have "\<lfloor>x\<rfloor> + 1 \<le> \<lfloor>y\<rfloor>" by simp
    moreover have "round_half_even x \<le> \<lfloor>x\<rfloor> + 1"
      by (simp add: round_half_even_def Let_def)
    ultimately show ?thesis using rhe_floor_le [of y] by linarith
  qed
qed

lemma rhe_nonneg: "0 \<le> y \<Longrightarrow> 0 \<le> round_half_even y"
  using rhe_mono [of 0 y] by simp

lemma ieee_round_zero [simp]: "ieee_round p emin 0 = 0"
  by (simp add: ieee_round_def)

lemma ieee_round_pos:
  "0 < x \<Longrightarrow> ieee_round p emin x =
     real_of_int (round_half_even (x / pow2 (max emin (expo x) - p + 1))) * pow2 (max emin (expo x) - p + 1)"
  by (simp add: ieee_round_def Let_def)

lemma ieee_round_minus: "ieee_round p emin (- x) = - ieee_round p emin x"
  by (simp add: ieee_round_def Let_def sgn_minus)

lemma ieee_round_nonneg: "0 \<le> x \<Longrightarrow> 0 \<le> ieee_round p emin x"
proof (cases "x = 0")
  case True
  then show ?thesis by simp
next
  case False
  assume "0 \<le> x"
  with False have x: "0 < x" by simp
  have "0 \<le> x / pow2 (max emin (expo x) - p + 1)" using x by simp
  then have "0 \<le> round_half_even (x / pow2 (max emin (expo x) - p + 1))" by (rule rhe_nonneg)
  then show ?thesis using x by (simp add: ieee_round_pos)
qed

lemma ieee_round_nonpos: "x \<le> 0 \<Longrightarrow> ieee_round p emin x \<le> 0"
  using ieee_round_nonneg [of "- x" p emin] by (simp add: ieee_round_minus)

text \<open>evaluation with the exponent given\<close>

lemma ieee_round_eval:
  assumes "0 < x" and "pow2 e \<le> x" and "x < pow2 (e + 1)" and "emin \<le> e" and "q = pow2 (e - p + 1)"
  shows "ieee_round p emin x = real_of_int (round_half_even (x / q)) * q"
proof -
  have "expo x = e" using assms(1-3) by (rule expo_unique)
  with assms(4) have "max emin (expo x) = e" by simp
  with assms(1,5) show ?thesis by (simp add: ieee_round_pos)
qed

lemma ieee_round_upper:
  assumes x: "0 < x" and p: "1 \<le> p"
  shows "ieee_round p emin x \<le> pow2 (max emin (expo x) + 1)"
proof -
  define e where "e = max emin (expo x)"
  define q where "q = pow2 (e - p + 1)"
  have "x < pow2 (expo x + 1)" using x expo_bounds by blast
  also have "\<dots> \<le> pow2 (e + 1)" by (rule pow2_mono) (simp add: e_def)
  finally have "x < pow2 (e + 1)" .
  moreover have "pow2 (e + 1) = pow2 p * q"
    unfolding q_def by (simp add: pow2_add [symmetric])
  ultimately have "x / q < pow2 p" by (simp add: q_def pos_divide_less_eq)
  then have "x / q \<le> real_of_int (2 ^ nat p)" using p by (simp add: pow2_int)
  then have "\<lceil>x / q\<rceil> \<le> 2 ^ nat p" by (simp add: ceiling_le_iff)
  with rhe_le_ceiling [of "x / q"] have "round_half_even (x / q) \<le> 2 ^ nat p" by linarith
  then have "real_of_int (round_half_even (x / q)) \<le> pow2 p"
    using p pow2_int [of p] by (metis of_int_le_iff order_trans zero_le_one)
  then have "real_of_int (round_half_even (x / q)) * q \<le> pow2 p * q"
    by (intro mult_right_mono) (simp_all add: q_def less_imp_le)
  then show ?thesis
    using x \<open>pow2 (e + 1) = pow2 p * q\<close> by (simp add: ieee_round_pos e_def q_def)
qed

lemma ieee_round_lower:
  assumes x: "0 < x" and p: "1 \<le> p" and e: "emin \<le> expo x"
  shows "pow2 (expo x) \<le> ieee_round p emin x"
proof -
  define q where "q = pow2 (expo x - p + 1)"
  have m: "max emin (expo x) = expo x" using e by simp
  have "pow2 (expo x) \<le> x" using x expo_bounds by blast
  moreover have eq: "pow2 (expo x) = pow2 (p - 1) * q"
    unfolding q_def by (simp add: pow2_add [symmetric])
  ultimately have "pow2 (p - 1) \<le> x / q" by (simp add: q_def pos_le_divide_eq)
  then have "real_of_int (2 ^ nat (p - 1)) \<le> x / q" using p by (simp add: pow2_int)
  then have "2 ^ nat (p - 1) \<le> \<lfloor>x / q\<rfloor>" by (simp add: le_floor_iff)
  with rhe_floor_le [of "x / q"] have "2 ^ nat (p - 1) \<le> round_half_even (x / q)" by linarith
  then have "pow2 (p - 1) \<le> real_of_int (round_half_even (x / q))"
    using p pow2_int [of "p - 1"] by (metis diff_ge_0_iff_ge of_int_le_iff)
  then have "pow2 (p - 1) * q \<le> real_of_int (round_half_even (x / q)) * q"
    by (intro mult_right_mono) (simp_all add: q_def less_imp_le)
  then show ?thesis
    using x eq by (simp add: ieee_round_pos m q_def)
qed

lemma ieee_round_mono_pos:
  assumes x: "0 < x" and xy: "x \<le> y" and p: "1 \<le> p"
  shows "ieee_round p emin x \<le> ieee_round p emin y"
proof -
  have y: "0 < y" using x xy by simp
  define ex where "ex = max emin (expo x)"
  define ey where "ey = max emin (expo y)"
  have le: "ex \<le> ey" using expo_mono [OF x xy] by (simp add: ex_def ey_def)
  show ?thesis
  proof (cases "ex = ey")
    case True
    have "x / pow2 (ex - p + 1) \<le> y / pow2 (ex - p + 1)"
      using xy by (simp add: divide_right_mono less_imp_le)
    then have "round_half_even (x / pow2 (ex - p + 1)) \<le> round_half_even (y / pow2 (ex - p + 1))"
      by (rule rhe_mono)
    then have "real_of_int (round_half_even (x / pow2 (ex - p + 1))) * pow2 (ex - p + 1)
       \<le> real_of_int (round_half_even (y / pow2 (ex - p + 1))) * pow2 (ex - p + 1)"
      by (intro mult_right_mono) (simp_all add: less_imp_le)
    then show ?thesis
      using x y True by (simp add: ieee_round_pos ex_def [symmetric] ey_def [symmetric])
  next
    case False
    with le have lt: "ex < ey" by simp
    then have ey_expo: "ey = expo y" and "emin \<le> expo y"
      by (auto simp: ex_def ey_def max_def split: if_splits)
    have "ieee_round p emin x \<le> pow2 (ex + 1)"
      using ieee_round_upper [OF x p] by (simp add: ex_def)
    also have "\<dots> \<le> pow2 ey" using lt by (intro pow2_mono) simp
    also have "\<dots> \<le> ieee_round p emin y"
      using ieee_round_lower [OF y p \<open>emin \<le> expo y\<close>] by (simp add: ey_expo)
    finally show ?thesis .
  qed
qed

lemma ieee_round_mono:
  assumes xy: "x \<le> y" and p: "1 \<le> p"
  shows "ieee_round p emin x \<le> ieee_round p emin y"
proof (cases "0 < x")
  case True
  then show ?thesis using xy p by (rule ieee_round_mono_pos)
next
  case False
  then have x: "x \<le> 0" by simp
  show ?thesis
  proof (cases "0 \<le> y")
    case True
    from ieee_round_nonpos [OF x] ieee_round_nonneg [OF True] show ?thesis
      by (rule order_trans)
  next
    case False
    then have "0 < - y" "- y \<le> - x" using xy by simp_all
    then have "ieee_round p emin (- y) \<le> ieee_round p emin (- x)"
      using p by (rule ieee_round_mono_pos)
    then show ?thesis by (simp add: ieee_round_minus)
  qed
qed

text \<open>a number whose quotient by its unit is whole is not changed\<close>

lemma ieee_round_exact:
  assumes x: "0 < x" and w: "x / pow2 (max emin (expo x) - p + 1) = real_of_int n"
  shows "ieee_round p emin x = x"
proof -
  have "real_of_int (round_half_even (x / pow2 (max emin (expo x) - p + 1))) = x / pow2 (max emin (expo x) - p + 1)"
    by (simp add: w)
  then show ?thesis using x by (simp add: ieee_round_pos)
qed

lemma ieee_round_int:
  assumes n: "0 \<le> n" "n \<le> 2 ^ nat p" and p: "1 \<le> p" and emin: "emin \<le> 0"
  shows "ieee_round p emin (real_of_int n) = real_of_int n"
proof (cases "n = 0")
  case True
  then show ?thesis by simp
next
  case False
  with n have pos: "0 < real_of_int n" and one: "1 \<le> real_of_int n" by simp_all
  define e where "e = expo (real_of_int n)"
  have eb: "pow2 e \<le> real_of_int n" "real_of_int n < pow2 (e + 1)"
    using expo_bounds [OF pos] by (simp_all add: e_def)
  have e0: "0 \<le> e"
  proof -
    have "expo 1 \<le> expo (real_of_int n)" using one by (intro expo_mono) simp_all
    moreover have "expo 1 = 0" by (rule expo_unique) (simp_all add: pow2_def)
    ultimately show ?thesis by (simp add: e_def)
  qed
  have ep: "e \<le> p"
  proof (rule ccontr)
    assume "\<not> e \<le> p"
    then have "p + 1 \<le> e" by simp
    then have "pow2 (p + 1) \<le> pow2 e" by (rule pow2_mono)
    with eb(1) have "pow2 (p + 1) \<le> real_of_int n" by simp
    moreover have "real_of_int n \<le> pow2 p" using n(2) p by (simp add: pow2_int)
    moreover have "pow2 p < pow2 (p + 1)" by (rule pow2_strict_mono) simp
    ultimately show False by simp
  qed
  have m: "max emin e = e" using e0 emin by simp
  show ?thesis
  proof (cases "e = p")
    case True
    then have "pow2 p \<le> real_of_int n" using eb(1) by simp
    with n(2) p have "real_of_int n = pow2 p" by (simp add: pow2_int)
    then have "real_of_int n / pow2 (e - p + 1) = real_of_int (2 ^ nat (p - 1))"
      using True p pow2_add [of "p - 1" 1] by (simp add: pow2_int pow2_def)
    then show ?thesis
      using ieee_round_exact [OF pos, of emin p] by (simp add: e_def [symmetric] m)
  next
    case False
    with ep have k: "0 \<le> p - 1 - e" by simp
    have "pow2 (e - p + 1) * pow2 (p - 1 - e) = pow2 0"
      by (simp add: pow2_add [symmetric])
    then have "pow2 (e - p + 1) * pow2 (p - 1 - e) = 1"
      by (simp add: pow2_def)
    then have "real_of_int n / pow2 (e - p + 1) = real_of_int n * pow2 (p - 1 - e)"
      by (simp add: field_simps)
    also have "\<dots> = real_of_int (n * 2 ^ nat (p - 1 - e))"
      using k by (simp add: pow2_int)
    finally have "real_of_int n / pow2 (max emin (expo (real_of_int n)) - p + 1) =
        real_of_int (n * 2 ^ nat (p - 1 - e))"
      by (simp only: e_def [symmetric] m)
    with pos show ?thesis by (rule ieee_round_exact)
  qed
qed

lemma ieee_round_between:
  assumes x: "0 \<le> x" "x \<le> 2 ^ nat p" and p: "1 \<le> p" and emin: "emin \<le> 0"
  shows "real_of_int \<lfloor>x\<rfloor> \<le> ieee_round p emin x \<and> ieee_round p emin x \<le> real_of_int \<lceil>x\<rceil>"
proof -
  have f: "0 \<le> \<lfloor>x\<rfloor>" "\<lfloor>x\<rfloor> \<le> 2 ^ nat p"
  proof -
    show "0 \<le> \<lfloor>x\<rfloor>" using x by simp
    have "real_of_int \<lfloor>x\<rfloor> \<le> x" by simp
    also have "x \<le> real_of_int (2 ^ nat p)" using x by simp
    finally show "\<lfloor>x\<rfloor> \<le> 2 ^ nat p" by (simp only: of_int_le_iff)
  qed
  have c: "0 \<le> \<lceil>x\<rceil>" "\<lceil>x\<rceil> \<le> 2 ^ nat p"
  proof -
    show "0 \<le> \<lceil>x\<rceil>" using x by simp
    have "x \<le> real_of_int (2 ^ nat p)" using x by simp
    then show "\<lceil>x\<rceil> \<le> 2 ^ nat p" by (simp only: ceiling_le_iff)
  qed
  have "ieee_round p emin (real_of_int \<lfloor>x\<rfloor>) \<le> ieee_round p emin x"
    by (rule ieee_round_mono) (simp_all add: p)
  moreover have "ieee_round p emin x \<le> ieee_round p emin (real_of_int \<lceil>x\<rceil>)"
    by (rule ieee_round_mono) (simp_all add: p)
  ultimately show ?thesis
    using ieee_round_int [OF f p emin] ieee_round_int [OF c p emin] by simp
qed

text \<open>The same facts for doubles.\<close>

lemma fl64_zero [simp]: "fl64 0 = 0"
  by (simp add: fl64_def)

lemma fl64_minus: "fl64 (- x) = - fl64 x"
  by (simp add: fl64_def ieee_round_minus)

lemma fl64_nonneg: "0 \<le> x \<Longrightarrow> 0 \<le> fl64 x"
  by (simp add: fl64_def ieee_round_nonneg)

lemma fl64_nonpos: "x \<le> 0 \<Longrightarrow> fl64 x \<le> 0"
  by (simp add: fl64_def ieee_round_nonpos)

lemma fl64_mono: "x \<le> y \<Longrightarrow> fl64 x \<le> fl64 y"
  by (simp add: fl64_def ieee_round_mono)

lemma fl64_nat: "0 \<le> n \<Longrightarrow> n \<le> 2 ^ 53 \<Longrightarrow> fl64 (real_of_int n) = real_of_int n"
  unfolding fl64_def by (rule ieee_round_int) simp_all

lemma fl64_int: "\<bar>n\<bar> \<le> 2 ^ 53 \<Longrightarrow> fl64 (real_of_int n) = real_of_int n"
proof (cases "0 \<le> n")
  case True
  assume "\<bar>n\<bar> \<le> 2 ^ 53"
  with True show ?thesis by (simp add: fl64_nat)
next
  case False
  assume "\<bar>n\<bar> \<le> 2 ^ 53"
  with False have "fl64 (real_of_int (- n)) = real_of_int (- n)"
    by (intro fl64_nat) simp_all
  then show ?thesis by (simp add: fl64_minus)
qed

lemma fl64_between:
  "0 \<le> x \<Longrightarrow> x \<le> 2 ^ 53 \<Longrightarrow>
   real_of_int \<lfloor>x\<rfloor> \<le> fl64 x \<and> fl64 x \<le> real_of_int \<lceil>x\<rceil>"
  unfolding fl64_def by (rule ieee_round_between) simp_all

lemma fl64_le_int: "x \<le> real_of_int n \<Longrightarrow> \<bar>n\<bar> \<le> 2 ^ 53 \<Longrightarrow> fl64 x \<le> real_of_int n"
  using fl64_mono [of x "real_of_int n"] by (simp add: fl64_int)

lemma fl64_ge_int: "real_of_int n \<le> x \<Longrightarrow> \<bar>n\<bar> \<le> 2 ^ 53 \<Longrightarrow> real_of_int n \<le> fl64 x"
  using fl64_mono [of "real_of_int n" x] by (simp add: fl64_int)

text \<open>Evaluation of a rounding whose exponent is given.\<close>

lemma fl64_eval:
  assumes "0 < x" and "pow2 e \<le> x" and "x < pow2 (e + 1)" and "- 1022 \<le> e"
  shows "fl64 x = real_of_int (round_half_even (x / pow2 (e - 52))) * pow2 (e - 52)"
  unfolding fl64_def using assms by (subst ieee_round_eval [where e = e]) simp_all

lemma fl32_eval:
  assumes "0 < x" and "pow2 e \<le> x" and "x < pow2 (e + 1)" and "- 126 \<le> e"
  shows "fl32 x = real_of_int (round_half_even (x / pow2 (e - 23))) * pow2 (e - 23)"
  unfolding fl32_def using assms by (subst ieee_round_eval [where e = e]) simp_all

lemma fl32_zero [simp]: "fl32 0 = 0"
  by (simp add: fl32_def)

lemma fl32_one [simp]: "fl32 1 = 1"
  using ieee_round_int [of 1 24 "- 126"] by (simp add: fl32_def)

subsection \<open>Truncation and formatting\<close>

lemma trunc_nonneg: "0 \<le> r \<Longrightarrow> trunc r = \<lfloor>r\<rfloor>"
  by (simp add: trunc_def)

lemma trunc_neg: "r < 0 \<Longrightarrow> trunc r \<le> 0"
proof -
  assume "r < 0"
  then have "0 \<le> \<lfloor>- r\<rfloor>" by simp
  with \<open>r < 0\<close> show ?thesis by (simp add: trunc_def)
qed

lemma max8_trunc: "max 8 (trunc r) = max 8 \<lfloor>r\<rfloor>"
proof (cases "r < 0")
  case True
  then have "trunc r \<le> 0" by (rule trunc_neg)
  moreover from True have "\<lfloor>r\<rfloor> \<le> 0" by (simp add: floor_le_zero)
  ultimately show ?thesis by simp
next
  case False
  then show ?thesis by (simp add: trunc_nonneg)
qed

lemma py_int_finite: "\<bar>r\<bar> < 2 ^ 1024 \<Longrightarrow> py_int r = Inr (trunc r)"
  by (simp add: py_int_def)

lemma fmt6_unit: "0 \<le> v \<Longrightarrow> v \<le> 1 \<Longrightarrow> 0 \<le> fmt6 v \<and> fmt6 v \<le> 1"
proof -
  assume v: "0 \<le> v" "v \<le> 1"
  have "round_half_even 0 \<le> round_half_even (v * 10 ^ 6)"
    using v by (intro rhe_mono) simp
  moreover have "round_half_even (v * 10 ^ 6) \<le> round_half_even (real_of_int (10 ^ 6))"
    using v by (intro rhe_mono) simp
  ultimately have "0 \<le> round_half_even (v * 10 ^ 6)" "round_half_even (v * 10 ^ 6) \<le> 10 ^ 6"
    by (simp_all del: of_int_power of_int_numeral)
  then have "0 \<le> real_of_int (round_half_even (v * 10 ^ 6))"
    and "real_of_int (round_half_even (v * 10 ^ 6)) \<le> 10 ^ 6"
    by (simp_all only: of_int_0_le_iff) (metis of_int_le_iff of_int_numeral of_int_power)
  then show ?thesis by (simp add: fmt6_def)
qed

subsection \<open>Some doubles\<close>

lemma fl64_numeral [simp]:
  "numeral k \<le> (2 :: int) ^ 53 \<Longrightarrow> fl64 (numeral k) = numeral k"
  using fl64_nat [of "numeral k"] by simp

lemma fl64_one [simp]: "fl64 1 = 1"
  using fl64_nat [of 1] by simp

text \<open>The doubles nearest to 0.08 and to 0.15, and some binary fractions.\<close>

lemma double_008: "fl64 (2/25) = 5764607523034235 / 2 ^ 56"
  by (subst fl64_eval [where e = "- 4"]) (simp_all add: pow2_def round_half_even_def)

lemma double_008_fixed: "fl64 (5764607523034235 / 2 ^ 56) = 5764607523034235 / 2 ^ 56"
  by (subst fl64_eval [where e = "- 4"]) (simp_all add: pow2_def round_half_even_def)

lemma double_015: "fl64 (3/20) = 5404319552844595 / 2 ^ 55"
  by (subst fl64_eval [where e = "- 3"]) (simp_all add: pow2_def round_half_even_def)

lemma double_eighth: "fl64 (1/8) = 1/8"
  by (subst fl64_eval [where e = "- 3"]) (simp_all add: pow2_def round_half_even_def)

lemma double_quarter: "fl64 (1/4) = 1/4"
  by (subst fl64_eval [where e = "- 2"]) (simp_all add: pow2_def round_half_even_def)

subsection \<open>The concrete environment, field by field\<close>

lemma tape_fields:
  "im_size tape_env = (\<lambda>i. i)"
  "im_mode tape_env = (\<lambda>i. ''RGBA'')"
  "im_convert tape_env = (\<lambda>i m. i)"
  "im_open tape_env = (\<lambda>p. if p = ''minimap'' then (512, 512)
                            else if p = ''thin'' then (100, 1) else (64, 64))"
  "im_resize tape_env = (\<lambda>i s. s)"
  "im_paste tape_env = (\<lambda>bg fg pos. bg)"
  "im_transform tape_env = (\<lambda>i s c. i)"
  "im_blend_pattern tape_env = (\<lambda>i f a s. i)"
  "im_glare_overlay tape_env = (\<lambda>i x y r a. i)"
  "im_brightness tape_env = (\<lambda>i f. i)"
  "im_contrast tape_env = (\<lambda>i f. i)"
  "np_lstsq tape_env = exact_lstsq"
  "float_op tape_env = fl64"
  "np_float32 tape_env = fl32"
  "np_matvec tape_env = matvec64"
  by (simp_all add: tape_env_def)

lemma tape_uniform:
  "rnd_uniform tape_env a b (t # g) = (fl64 (a + fl64 (fl64 (b - a) * t)), g)"
  by (simp add: tape_env_def draw_def)

lemma tape_randint:
  "rnd_randint tape_env a b (t # g) = (min b (a + \<lfloor>t * real_of_int (b - a + 1)\<rfloor>), g)"
  by (simp add: tape_env_def draw_def)

lemma tape_random: "rnd_random tape_env (t # g) = (t, g)"
  by (simp add: tape_env_def draw_def)

lemma tape_choice:
  "rnd_choice tape_env xs (t # g) = (xs ! min (length xs - 1) (nat \<lfloor>t * real (length xs)\<rfloor>), g)"
  by (simp add: tape_env_def draw_def)

lemma exact_fields:
  "im_size exact_env = (\<lambda>i. i)"
  "im_transform exact_env = (\<lambda>i s c. i)"
  "np_lstsq exact_env = exact_lstsq"
  "float_op exact_env = (\<lambda>x. x)"
  "np_float32 exact_env = (\<lambda>x. x)"
  "np_matvec exact_env = matvec3"
  "rnd_random exact_env = draw"
  by (simp_all add: exact_env_def tape_env_def)

lemma exact_uniform: "rnd_uniform exact_env a b (t # g) = (a + (b - a) * t, g)"
  by (simp add: exact_env_def draw_def)

lemma exact_env_exact: "exact_arithmetic exact_env"
  by (simp add: exact_arithmetic_def exact_fields)

lemma default_args_fields:
  "arg_img_size (default_args s) = s"
  "arg_min_scale (default_args s) = fl64 (2/25)"
  "arg_max_scale (default_args s) = fl64 (1/5)"
  "arg_moire_prob (default_args s) = fl64 (3/5)"
  "arg_glare_prob (default_args s) = fl64 (3/5)"
  "arg_perspective_prob (default_args s) = 1/2"
  by (simp_all add: default_args_def)

lemma double_06_below: "fl64 (3/5) \<le> 3/4"
proof -
  have "fl64 (3/5) \<le> real_of_int \<lceil>3/5 :: real\<rceil>"
    using fl64_between [of "3/5"] by simp
  moreover have "fl64 (3/5) = 5404319552844595 / 2 ^ 53"
    by (subst fl64_eval [where e = "- 1"]) (simp_all add: pow2_def round_half_even_def)
  ultimately show ?thesis by simp
qed

text \<open>With both overlays off and both coin flips at 1/2 or more, only two draws are used.\<close>

lemma photometric_off:
  "1/2 \<le> r1 \<Longrightarrow> 1/2 \<le> r2 \<Longrightarrow>
   augment_photometric E img False False (r1 # r2 # g) = (img, g)"
  if "\<And>t g. rnd_random E (t # g) = (t, g)"
  by (simp add: augment_photometric_def that)

lemma augment_off:
  "1/2 \<le> r1 \<Longrightarrow> 1/2 \<le> r2 \<Longrightarrow>
   augment_image tape_env img bbox False False False (r1 # r2 # g) = Inr ((img, bbox), g)"
  by (simp add: augment_image_def photometric_off tape_random)

text \<open>\<^verbatim>\<open>generate_one\<close>, step by step: each premise is the outcome of one statement.\<close>

lemma generate_one_steps:
  assumes "(if 0 < s then im_resize E (pil_to_rgb E (im_open E mp)) (s, s)
            else pil_to_rgb E (im_open E mp)) = bg"
    and "im_size E bg = (cw, ch)"
    and "(if im_mode E (im_open E cp) \<noteq> ''RGBA'' then im_convert E (im_open E cp) ''RGBA''
          else im_open E cp) = fg0"
    and "rnd_uniform E lo hi g = (scale, g1)"
    and "resize_target cw ch scale = Inr target"
    and "resize_keep_aspect E fg0 target = Inr fg"
    and "im_size E fg = (fw, fh)"
    and "rnd_randint E 0 (placement_max cw fw) g1 = (x, g2)"
    and "rnd_randint E 0 (placement_max ch fh) g2 = (y, g3)"
  shows "generate_one E mp cp s (lo, hi) p mo gl g =
     augment_image E (alpha_paste E bg fg (x, y))
       (real_of_int x, real_of_int y, real_of_int (x + fw), real_of_int (y + fh)) p mo gl g3"
  unfolding generate_one_def Let_def by (simp add: assms err_bind_def)

lemma one_attempt_steps:
  assumes "rnd_choice E minimaps g = (bg_path, g1)"
    and "rnd_choice E champions g1 = (fg_path, g2)"
    and "rnd_random E g2 = (r1, g3)"
    and "rnd_random E g3 = (r2, g4)"
    and "rnd_random E g4 = (r3, g5)"
  shows "one_attempt E A minimaps champions g =
     generate_one E bg_path fg_path (arg_img_size A) (arg_min_scale A, arg_max_scale A)
       (r3 < arg_perspective_prob A) (r1 < arg_moire_prob A) (r2 < arg_glare_prob A) g5"
  unfolding one_attempt_def by (simp add: assms)

text \<open>The resize target of a product between 0 and 8 is 8.\<close>

lemma resize_target_small:
  assumes "0 \<le> real_of_int (min cw ch) * scale" and "real_of_int (min cw ch) * scale \<le> 8"
  shows "resize_target cw ch scale = Inr 8"
proof -
  define P where "P = fl64 (real_of_int (min cw ch) * scale)"
  have P: "0 \<le> P" "P \<le> 8"
    using assms fl64_nonneg fl64_le_int [of "real_of_int (min cw ch) * scale" 8]
    by (simp_all add: P_def)
  then have "\<lfloor>P\<rfloor> \<le> 8" by (simp add: floor_le_iff) 
  with P show ?thesis
    by (simp add: resize_target_def P_def [symmetric] py_int_def err_bind_def trunc_nonneg)
qed

text \<open>
  An attempt of the concrete environment on \<open>plain_draws\<close>: the scale is the double
  nearest to 0.08, and the champion is resized to the target for that scale and pasted
  at the origin of the canvas.
\<close>

lemma plain_attempt:
  assumes canvas: "(if 0 < s then (s, s) else (512, 512)) = (cw, ch)"
    and champion: "im_open tape_env cp = fg0"
    and target: "resize_target cw ch (5764607523034235 / 2 ^ 56) = Inr t"
    and resized: "resize_keep_aspect tape_env fg0 t = Inr (fw, fh)"
  shows "one_attempt tape_env (default_args s) [''minimap''] [cp] (plain_draws @ g) =
     Inr (((cw, ch), (0, 0, real_of_int fw, real_of_int fh)), g)"
proof -
  have a: "one_attempt tape_env (default_args s) [''minimap''] [cp] (plain_draws @ g) =
     generate_one tape_env ''minimap'' cp s (fl64 (2/25), fl64 (1/5)) False False False
       (0 # 0 # 0 # 3/4 # 3/4 # g)"
    unfolding plain_draws_def
    by (subst one_attempt_steps [where ?g1.0 = "0 # 3/4 # 3/4 # 3/4 # 0 # 0 # 0 # 3/4 # 3/4 # g"
          and ?g2.0 = "3/4 # 3/4 # 3/4 # 0 # 0 # 0 # 3/4 # 3/4 # g"
          and ?g3.0 = "3/4 # 3/4 # 0 # 0 # 0 # 3/4 # 3/4 # g"
          and ?g4.0 = "3/4 # 0 # 0 # 0 # 3/4 # 3/4 # g"
          and ?g5.0 = "0 # 0 # 0 # 3/4 # 3/4 # g"
          and bg_path = "''minimap''" and fg_path = cp
          and ?r1.0 = "3/4" and ?r2.0 = "3/4" and ?r3.0 = "3/4"])
       (use double_06_below in \<open>simp_all add: tape_choice tape_random default_args_fields\<close>)
  have pm: "min (placement_max c f) 0 = 0" for c f
    by (simp add: placement_max_def)
  have b: "generate_one tape_env ''minimap'' cp s (fl64 (2/25), fl64 (1/5)) False False False
       (0 # 0 # 0 # 3/4 # 3/4 # g) =
     augment_image tape_env (alpha_paste tape_env (cw, ch) (fw, fh) (0, 0))
       (real_of_int 0, real_of_int 0, real_of_int (0 + fw), real_of_int (0 + fh))
       False False False (3/4 # 3/4 # g)"
  proof (rule generate_one_steps)
    show "(if 0 < s then im_resize tape_env (pil_to_rgb tape_env (im_open tape_env ''minimap'')) (s, s)
            else pil_to_rgb tape_env (im_open tape_env ''minimap'')) = (cw, ch)"
      using canvas by (auto simp add: tape_fields pil_to_rgb_def split: if_splits)
    show "im_size tape_env (cw, ch) = (cw, ch)" by (simp add: tape_fields)
    show "(if im_mode tape_env (im_open tape_env cp) \<noteq> ''RGBA''
           then im_convert tape_env (im_open tape_env cp) ''RGBA''
           else im_open tape_env cp) = fg0"
      by (simp add: tape_fields(2) champion)
    show "rnd_uniform tape_env (fl64 (2/25)) (fl64 (1/5)) (0 # 0 # 0 # 3/4 # 3/4 # g) =
        (5764607523034235 / 2 ^ 56, 0 # 0 # 3/4 # 3/4 # g)"
      unfolding tape_uniform double_008 by (simp only: mult_zero_right fl64_zero add_0_right double_008_fixed)
    show "resize_target cw ch (5764607523034235 / 2 ^ 56) = Inr t"
      by (rule target)
    show "resize_keep_aspect tape_env fg0 t = Inr (fw, fh)"
      by (rule resized)
    show "im_size tape_env (fw, fh) = (fw, fh)" by (simp add: tape_fields)
    show "rnd_randint tape_env 0 (placement_max cw fw) (0 # 0 # 3/4 # 3/4 # g) = (0, 0 # 3/4 # 3/4 # g)"
      by (simp add: tape_randint pm)
    show "rnd_randint tape_env 0 (placement_max ch fh) (0 # 3/4 # 3/4 # g) = (0, 3/4 # 3/4 # g)"
      by (simp add: tape_randint pm)
  qed
  show ?thesis
    unfolding a b by (simp add: alpha_paste_def tape_fields augment_off)
qed

lemma resize_square_8: "resize_keep_aspect tape_env (64, 64) 8 = Inr (8, 8)"
  by (simp add: resize_keep_aspect_def tape_fields double_eighth py_int_def trunc_def err_bind_def)

lemma tiny_canvas_attempt:
  "one_attempt tape_env (default_args 2) [''minimap''] [''champion''] (plain_draws @ g) =
     Inr (((2, 2), (0, 0, 8, 8)), g)"
proof -
  have t: "resize_target 2 2 (5764607523034235 / 2 ^ 56) = Inr 8"
    by (rule resize_target_small) simp_all
  have "one_attempt tape_env (default_args 2) [''minimap''] [''champion''] (plain_draws @ g) =
     Inr (((2, 2), (0, 0, real_of_int 8, real_of_int 8)), g)"
    by (rule plain_attempt [where ?fg0.0 = "(64, 64)", OF _ _ t])
       (simp_all add: tape_fields resize_square_8)
  then show ?thesis by simp
qed

text \<open>On the canvas of 320 the product with the double 0.08 rounds to a double just above 25.6.\<close>

lemma target_320_008: "resize_target 320 320 (5764607523034235 / 2 ^ 56) = Inr 25"
proof -
  have "fl64 (320 * (5764607523034235 / 2 ^ 56)) = 7205759403792794 / 2 ^ 48"
    by (subst fl64_eval [where e = 4]) (simp_all add: pow2_def round_half_even_def)
  moreover have "real_of_int (min 320 320) * (5764607523034235 / 2 ^ 56) =
      320 * (5764607523034235 / 2 ^ 56 :: real)"
    by simp
  ultimately have "resize_target 320 320 (5764607523034235 / 2 ^ 56) =
      err_bind (py_int (7205759403792794 / 2 ^ 48)) (\<lambda>target. Inr (max 8 target))"
    by (simp only: resize_target_def)
  then show ?thesis
    by (simp add: py_int_def trunc_def err_bind_def)
qed

lemma resize_thin_25: "resize_keep_aspect tape_env (100, 1) 25 = Inr (25, 1)"
  by (simp add: resize_keep_aspect_def tape_fields double_quarter py_int_def trunc_def err_bind_def)

lemma thin_champion_attempt:
  "one_attempt tape_env (default_args 320) [''minimap''] [''thin''] (plain_draws @ g) =
     Inr (((320, 320), (0, 0, 25, 1)), g)"
proof -
  have "one_attempt tape_env (default_args 320) [''minimap''] [''thin''] (plain_draws @ g) =
     Inr (((320, 320), (0, 0, real_of_int 25, real_of_int 1)), g)"
    by (rule plain_attempt [where ?fg0.0 = "(100, 1)", OF _ _ target_320_008])
       (simp_all add: tape_fields resize_thin_25)
  then show ?thesis by simp
qed

subsection \<open>The retry loop, one turn at a time\<close>

lemma retry_loop_exhausted:
  "5 \<le> tries \<Longrightarrow> retry_loop E A ms cs tries g cur = (0, Inr (cur, g))"
  by (subst retry_loop.simps) simp

lemma retry_loop_error:
  "tries < 5 \<Longrightarrow> one_attempt E A ms cs g = Inl e \<Longrightarrow>
   retry_loop E A ms cs tries g cur = (1, Inl e)"
  by (subst retry_loop.simps) simp

lemma retry_loop_accept:
  "tries < 5 \<Longrightarrow> one_attempt E A ms cs g = Inr ((img, bbox), g') \<Longrightarrow> validate bbox \<Longrightarrow>
   retry_loop E A ms cs tries g cur = (1, Inr (Some (img, bbox), g'))"
  by (subst retry_loop.simps) simp

lemma retry_loop_reject:
  "tries < 5 \<Longrightarrow> one_attempt E A ms cs g = Inr ((img, bbox), g') \<Longrightarrow> \<not> validate bbox \<Longrightarrow>
   retry_loop E A ms cs tries g cur =
     (case retry_loop E A ms cs (tries + 1) g' (Some (img, bbox)) of (n, r) \<Rightarrow> (n + 1, r))"
  by (subst retry_loop.simps) simp

lemma fst_bump:
  "fst (case p of (n, r) \<Rightarrow> (n + 1, r)) = Suc (fst p)"
  "fst (case p of (n, r) \<Rightarrow> (Suc n, r)) = Suc (fst p)"
  by (cases p; simp)+

lemma retry_loop_calls_budget:
  "5 - tries = k \<Longrightarrow> fst (retry_loop E A ms cs tries g cur) \<le> k"
proof (induction k arbitrary: tries g cur)
  case 0
  then have "5 \<le> tries" by simp
  then show ?case by (simp add: retry_loop_exhausted)
next
  case (Suc k)
  then have lt: "tries < 5" by simp
  show ?case
  proof (cases "one_attempt E A ms cs g")
    case (Inl e)
    with lt show ?thesis by (simp add: retry_loop_error)
  next
    case (Inr res)
    obtain img bbox g' where res: "res = ((img, bbox), g')" by (cases res) auto
    show ?thesis
    proof (cases "validate bbox")
      case True
      from retry_loop_accept [OF lt Inr [unfolded res] True]
      show ?thesis by simp
    next
      case False
      from Suc.prems have "5 - (tries + 1) = k" by simp
      then have "fst (retry_loop E A ms cs (tries + 1) g' (Some (img, bbox))) \<le> k"
        by (rule Suc.IH)
      then show ?thesis
        unfolding retry_loop_reject [OF lt Inr [unfolded res] False]
        by (simp add: fst_bump)
    qed
  qed
qed

lemma retry_loop_calls_le: "fst (retry_loop E A ms cs tries g cur) \<le> 5 - tries"
  by (rule retry_loop_calls_budget) simp


lemma retry_loop_calls_ge: "tries < 5 \<Longrightarrow> 1 \<le> fst (retry_loop E A ms cs tries g cur)"
proof -
  assume lt: "tries < 5"
  show ?thesis
  proof (cases "one_attempt E A ms cs g")
    case (Inl e)
    with lt show ?thesis by (simp add: retry_loop_error)
  next
    case (Inr res)
    obtain img bbox g' where res: "res = ((img, bbox), g')" by (cases res) auto
    show ?thesis
    proof (cases "validate bbox")
      case True
      from retry_loop_accept [OF lt Inr [unfolded res] True]
      show ?thesis by simp
    next
      case False
      show ?thesis
        unfolding retry_loop_reject [OF lt Inr [unfolded res] False]
        by (simp add: fst_bump)
    qed
  qed
qed
lemma retry_loop_reject_step:
  assumes "tries < 5" and "one_attempt E A ms cs g = Inr ((img, bbox), g')" and "\<not> validate bbox"
    and "retry_loop E A ms cs tries' g' (Some (img, bbox)) = (n, r)"
    and "tries' = tries + 1" and "n' = n + 1"
  shows "retry_loop E A ms cs tries g cur = (n', r)"
  unfolding retry_loop_reject [OF assms(1-3)] using assms(4-6) by simp

lemma five_attempts_reached:
  "retry_loop tape_env (default_args 320) [''minimap''] [''thin''] 0
     (plain_draws @ plain_draws @ plain_draws @ plain_draws @ plain_draws) None =
   (5, Inr (Some ((320, 320), (0, 0, 25, 1)), []))"
proof -
  have nv: "\<not> validate (0, 0, 25, 1)" by (simp add: validate_def)
  note step = retry_loop_reject_step [OF _ thin_champion_attempt nv]
  have s5: "retry_loop tape_env (default_args 320) [''minimap''] [''thin''] 5 []
       (Some ((320, 320), (0, 0, 25, 1))) = (0, Inr (Some ((320, 320), (0, 0, 25, 1)), []))"
    by (simp add: retry_loop_exhausted)
  have s4: "retry_loop tape_env (default_args 320) [''minimap''] [''thin''] 4 (plain_draws @ [])
       (Some ((320, 320), (0, 0, 25, 1))) = (1, Inr (Some ((320, 320), (0, 0, 25, 1)), []))"
    by (rule step [OF _ s5]) simp_all
  have s3: "retry_loop tape_env (default_args 320) [''minimap''] [''thin''] 3
       (plain_draws @ plain_draws @ [])
       (Some ((320, 320), (0, 0, 25, 1))) = (2, Inr (Some ((320, 320), (0, 0, 25, 1)), []))"
    by (rule step [OF _ s4]) simp_all
  have s2: "retry_loop tape_env (default_args 320) [''minimap''] [''thin''] 2
       (plain_draws @ plain_draws @ plain_draws @ [])
       (Some ((320, 320), (0, 0, 25, 1))) = (3, Inr (Some ((320, 320), (0, 0, 25, 1)), []))"
    by (rule step [OF _ s3]) simp_all
  have s1: "retry_loop tape_env (default_args 320) [''minimap''] [''thin''] 1
       (plain_draws @ plain_draws @ plain_draws @ plain_draws @ [])
       (Some ((320, 320), (0, 0, 25, 1))) = (4, Inr (Some ((320, 320), (0, 0, 25, 1)), []))"
    by (rule step [OF _ s2]) simp_all
  have "retry_loop tape_env (default_args 320) [''minimap''] [''thin''] 0
       (plain_draws @ plain_draws @ plain_draws @ plain_draws @ plain_draws @ [])
       None = (5, Inr (Some ((320, 320), (0, 0, 25, 1)), []))"
    by (rule step [OF _ s1]) simp_all
  then show ?thesis by simp
qed

subsection \<open>Clamping and division\<close>

lemma clamp_lower: "lo \<le> clamp v lo hi"
  by (simp add: clamp_def)

lemma clamp_upper: "lo \<le> hi \<Longrightarrow> clamp v lo hi \<le> hi"
  by (simp add: clamp_def)

lemma clamp_collapse: "hi \<le> lo \<Longrightarrow> clamp v lo hi = lo"
  by (simp add: clamp_def)

lemma py_div_nonzero: "b \<noteq> 0 \<Longrightarrow> py_div a b = Inr (fl64 (a / b))"
  by (simp add: py_div_def)

subsection \<open>The label encoder\<close>

lemma yolo_label_line_reject:
  "yolo_label_line bbox s c = Inr None \<longleftrightarrow>
     (case clamp_bbox bbox s of (x1, y1, x2, y2) \<Rightarrow> x2 \<le> x1 \<or> y2 \<le> y1)"
proof (cases bbox)
  case (fields x1 y1 x2 y2)
  show ?thesis
  proof (cases "s \<le> 0")
    case True
    then show ?thesis
      by (simp add: fields yolo_label_line_def clamp_bbox_def clamp_collapse Let_def)
  next
    case False
    then have "real_of_int s \<noteq> 0" by simp
    then show ?thesis
      by (simp add: fields yolo_label_line_def clamp_bbox_def Let_def py_div_nonzero err_bind_def)
  qed
qed

lemma yolo_label_line_total: "yolo_label_line bbox s c \<noteq> Inl e"
proof (cases bbox)
  case (fields x1 y1 x2 y2)
  show ?thesis
  proof (cases "s \<le> 0")
    case True
    then show ?thesis
      by (simp add: fields yolo_label_line_def clamp_collapse Let_def)
  next
    case False
    then have "real_of_int s \<noteq> 0" by simp
    then show ?thesis
      by (simp add: fields yolo_label_line_def Let_def py_div_nonzero err_bind_def)
  qed
qed

text \<open>
  The value of an emitted line: the canvas side is positive, the clamped box is not
  degenerate, and each field is the formatted, twice or three times rounded quotient.
\<close>

lemma yolo_label_line_emitted:
  assumes "yolo_label_line (x1, y1, x2, y2) s c = Inr (Some l)"
  shows "0 < s"
    and "clamp x1 0 (real_of_int s) < clamp x2 0 (real_of_int s)"
    and "clamp y1 0 (real_of_int s) < clamp y2 0 (real_of_int s)"
    and "l = \<lparr>l_class = c,
          l_cx = fmt6 (fl64 (fl64 (fl64 (clamp x1 0 (real_of_int s) + clamp x2 0 (real_of_int s)) / 2)
                   / real_of_int s)),
          l_cy = fmt6 (fl64 (fl64 (fl64 (clamp y1 0 (real_of_int s) + clamp y2 0 (real_of_int s)) / 2)
                   / real_of_int s)),
          l_w = fmt6 (fl64 (fl64 (clamp x2 0 (real_of_int s) - clamp x1 0 (real_of_int s))
                   / real_of_int s)),
          l_h = fmt6 (fl64 (fl64 (clamp y2 0 (real_of_int s) - clamp y1 0 (real_of_int s))
                   / real_of_int s))\<rparr>"
proof -
  show pos: "0 < s"
  proof (rule ccontr)
    assume "\<not> 0 < s"
    then have "s \<le> 0" by simp
    then have "yolo_label_line (x1, y1, x2, y2) s c = Inr None"
      by (simp add: yolo_label_line_def clamp_collapse Let_def)
    with assms show False by simp
  qed
  then have S: "real_of_int s \<noteq> 0" by simp
  from assms S show "clamp x1 0 (real_of_int s) < clamp x2 0 (real_of_int s)"
    and "clamp y1 0 (real_of_int s) < clamp y2 0 (real_of_int s)"
    by (auto simp add: yolo_label_line_def Let_def split: if_splits)
  from assms S show "l = \<lparr>l_class = c,
          l_cx = fmt6 (fl64 (fl64 (fl64 (clamp x1 0 (real_of_int s) + clamp x2 0 (real_of_int s)) / 2)
                   / real_of_int s)),
          l_cy = fmt6 (fl64 (fl64 (fl64 (clamp y1 0 (real_of_int s) + clamp y2 0 (real_of_int s)) / 2)
                   / real_of_int s)),
          l_w = fmt6 (fl64 (fl64 (clamp x2 0 (real_of_int s) - clamp x1 0 (real_of_int s))
                   / real_of_int s)),
          l_h = fmt6 (fl64 (fl64 (clamp y2 0 (real_of_int s) - clamp y1 0 (real_of_int s))
                   / real_of_int s))\<rparr>"
    by (auto simp add: yolo_label_line_def Let_def py_div_def err_bind_def split: if_splits)
qed

text \<open>The rounded centre and the rounded extent of two numbers of \<open>[0, S]\<close>, over \<open>S\<close>.\<close>

lemma centre_unit:
  assumes s: "0 < s" "s \<le> 2 ^ 52" and a: "0 \<le> a" "a \<le> real_of_int s" and b: "0 \<le> b" "b \<le> real_of_int s"
  shows "0 \<le> fl64 (fl64 (fl64 (a + b) / 2) / real_of_int s)
       \<and> fl64 (fl64 (fl64 (a + b) / 2) / real_of_int s) \<le> 1"
proof -
  have big: "\<bar>2 * s\<bar> \<le> 2 ^ 53" "\<bar>s\<bar> \<le> 2 ^ 53" using s by simp_all
  have 1: "0 \<le> fl64 (a + b)" using a b by (simp add: fl64_nonneg)
  have "a + b \<le> real_of_int (2 * s)" using a b by simp
  then have 2: "fl64 (a + b) \<le> real_of_int (2 * s)" using big(1) by (rule fl64_le_int)
  have 3: "0 \<le> fl64 (fl64 (a + b) / 2)" using 1 by (simp add: fl64_nonneg)
  have "fl64 (a + b) / 2 \<le> real_of_int s" using 2 by simp
  then have 4: "fl64 (fl64 (a + b) / 2) \<le> real_of_int s" using big(2) by (rule fl64_le_int)
  have 5: "0 \<le> fl64 (fl64 (fl64 (a + b) / 2) / real_of_int s)"
    using 3 s by (simp add: fl64_nonneg)
  have "fl64 (fl64 (a + b) / 2) / real_of_int s \<le> real_of_int 1" using 4 s by simp
  then have "fl64 (fl64 (fl64 (a + b) / 2) / real_of_int s) \<le> real_of_int 1"
    by (rule fl64_le_int) simp
  with 5 show ?thesis by simp
qed

lemma extent_unit:
  assumes s: "0 < s" "s \<le> 2 ^ 52" and a: "0 \<le> a" and ab: "a \<le> b" and b: "b \<le> real_of_int s"
  shows "0 \<le> fl64 (fl64 (b - a) / real_of_int s) \<and> fl64 (fl64 (b - a) / real_of_int s) \<le> 1"
proof -
  have big: "\<bar>s\<bar> \<le> 2 ^ 53" using s by simp
  have 1: "0 \<le> fl64 (b - a)" using ab by (simp add: fl64_nonneg)
  have "b - a \<le> real_of_int s" using a b by simp
  then have 2: "fl64 (b - a) \<le> real_of_int s" using big by (rule fl64_le_int)
  have 3: "0 \<le> fl64 (fl64 (b - a) / real_of_int s)" using 1 s by (simp add: fl64_nonneg)
  have "fl64 (b - a) / real_of_int s \<le> real_of_int 1" using 2 s by simp
  then have "fl64 (fl64 (b - a) / real_of_int s) \<le> real_of_int 1"
    by (rule fl64_le_int) simp
  with 3 show ?thesis by simp
qed

text \<open>Powers of two and small multiples of them are doubles.\<close>

lemma fl64_dyadic:
  assumes "0 < n" "n < 2 ^ 53" "- 1022 \<le> e" "pow2 e \<le> real_of_int n * pow2 k"
    "real_of_int n * pow2 k < pow2 (e + 1)" "e - 52 \<le> k"
  shows "fl64 (real_of_int n * pow2 k) = real_of_int n * pow2 k"
proof -
  have x: "0 < real_of_int n * pow2 k" using assms(1) by simp
  have "pow2 k = pow2 (k - (e - 52)) * pow2 (e - 52)"
    using pow2_add [of "k - (e - 52)" "e - 52"] by simp
  moreover have "pow2 (k - (e - 52)) = real_of_int (2 ^ nat (k - (e - 52)))"
    using assms(6) by (simp add: pow2_def)
  ultimately have "real_of_int n * pow2 k / pow2 (e - 52) = real_of_int (n * 2 ^ nat (k - (e - 52)))"
    by simp
  then have "round_half_even (real_of_int n * pow2 k / pow2 (e - 52)) = n * 2 ^ nat (k - (e - 52))"
    by (simp only: rhe_of_int)
  then have "fl64 (real_of_int n * pow2 k) = real_of_int (n * 2 ^ nat (k - (e - 52))) * pow2 (e - 52)"
    using fl64_eval [OF x assms(4) assms(5) assms(3)] by simp
  also have "\<dots> = real_of_int n * (pow2 (k - (e - 52)) * pow2 (e - 52))"
    using assms(6) by (simp add: pow2_def)
  also have "\<dots> = real_of_int n * pow2 k"
    using pow2_add [of "k - (e - 52)" "e - 52"] by simp
  finally show ?thesis .
qed

lemma double_2m14: "fl64 (1/16384) = 1/16384"
  using fl64_dyadic [of 1 "- 14" "- 14"] by (simp add: pow2_def)

lemma double_2m15: "fl64 (1/32768) = 1/32768"
  using fl64_dyadic [of 1 "- 15" "- 15"] by (simp add: pow2_def)

lemma double_2m22: "fl64 (1/4194304) = 1/4194304"
  using fl64_dyadic [of 1 "- 22" "- 22"] by (simp add: pow2_def)

lemma double_2m23: "fl64 (1/8388608) = 1/8388608"
  using fl64_dyadic [of 1 "- 23" "- 23"] by (simp add: pow2_def)

lemma double_5_2: "fl64 (5/2) = 5/2"
  using fl64_dyadic [of 5 1 "- 1"] by (simp add: pow2_def)

lemma double_5_256: "fl64 (5/256) = 5/256"
  using fl64_dyadic [of 5 "- 6" "- 8"] by (simp add: pow2_def)

lemma double_5_512: "fl64 (5/512) = 5/512"
  using fl64_dyadic [of 5 "- 7" "- 9"] by (simp add: pow2_def)

lemma double_3_32: "fl64 (3/32) = 3/32"
  using fl64_dyadic [of 3 "- 4" "- 5"] by (simp add: pow2_def)

lemma double_3_16: "fl64 (3/16) = 3/16"
  using fl64_dyadic [of 3 "- 3" "- 4"] by (simp add: pow2_def)

text \<open>A thin box on a canvas of 256: the line is emitted and prints the width as 0.000000.\<close>

lemma thin_box_line:
  "yolo_label_line (0, 0, 1/16384, 5) 256 0 =
     Inr (Some \<lparr>l_class = 0, l_cx = 0, l_cy = 9766 / 10 ^ 6, l_w = 0, l_h = 19531 / 10 ^ 6\<rparr>)"
proof -
  have cx: "fmt6 (fl64 (fl64 (fl64 (0 + 1/16384) / 2) / 256)) = 0"
    by (simp add: double_2m14 double_2m15 double_2m23 fmt6_def round_half_even_def)
  have cy: "fmt6 (fl64 (fl64 (fl64 (0 + 5) / 2) / 256)) = 9766 / 10 ^ 6"
    by (simp add: double_5_2 double_5_512 fmt6_def round_half_even_def)
  have w: "fmt6 (fl64 (fl64 (1/16384 - 0) / 256)) = 0"
    by (simp add: double_2m14 double_2m22 fmt6_def round_half_even_def)
  have h: "fmt6 (fl64 (fl64 (5 - 0) / 256)) = 19531 / 10 ^ 6"
    by (simp add: double_5_256 fmt6_def round_half_even_def)
  have "yolo_label_line (0, 0, 1/16384, 5) 256 0 =
     Inr (Some \<lparr>l_class = 0,
        l_cx = fmt6 (fl64 (fl64 (fl64 (0 + 1/16384) / 2) / 256)),
        l_cy = fmt6 (fl64 (fl64 (fl64 (0 + 5) / 2) / 256)),
        l_w = fmt6 (fl64 (fl64 (1/16384 - 0) / 256)),
        l_h = fmt6 (fl64 (fl64 (5 - 0) / 256))\<rparr>)"
    by (simp add: yolo_label_line_def clamp_def py_div_def err_bind_def Let_def)
  then show ?thesis by (simp only: cx cy w h)
qed

lemma plain_box_line:
  "yolo_label_line (10, 20, 50, 100) 320 0 =
     Inr (Some \<lparr>l_class = 0, l_cx = 3/32, l_cy = 3/16, l_w = 1/8, l_h = 1/4\<rparr>)"
proof -
  have cx: "fmt6 (fl64 (fl64 (fl64 (10 + 50) / 2) / 320)) = 3/32"
    by (simp add: double_3_32 fmt6_def round_half_even_def)
  have cy: "fmt6 (fl64 (fl64 (fl64 (20 + 100) / 2) / 320)) = 3/16"
    by (simp add: double_3_16 fmt6_def round_half_even_def)
  have w: "fmt6 (fl64 (fl64 (50 - 10) / 320)) = 1/8"
    by (simp add: double_eighth fmt6_def round_half_even_def)
  have h: "fmt6 (fl64 (fl64 (100 - 20) / 320)) = 1/4"
    by (simp add: double_quarter fmt6_def round_half_even_def)
  have "yolo_label_line (10, 20, 50, 100) 320 0 =
     Inr (Some \<lparr>l_class = 0,
        l_cx = fmt6 (fl64 (fl64 (fl64 (10 + 50) / 2) / 320)),
        l_cy = fmt6 (fl64 (fl64 (fl64 (20 + 100) / 2) / 320)),
        l_w = fmt6 (fl64 (fl64 (50 - 10) / 320)),
        l_h = fmt6 (fl64 (fl64 (100 - 20) / 320))\<rparr>)"
    by (simp add: yolo_label_line_def clamp_def py_div_def err_bind_def Let_def)
  then show ?thesis by (simp only: cx cy w h)
qed

subsection \<open>The acceptance test\<close>

lemma clamp_nonexpansive: "lo \<le> hi \<Longrightarrow> a \<le> b \<Longrightarrow> clamp b lo hi - clamp a lo hi \<le> b - a"
  by (auto simp: clamp_def min_def max_def)

lemma clamp_mono: "a \<le> b \<Longrightarrow> clamp a lo hi \<le> clamp b lo hi"
  by (auto simp: clamp_def min_def max_def)

text \<open>A difference whose double exceeds 2 exceeds 2.\<close>

lemma fl64_gt_2: "2 < fl64 d \<Longrightarrow> 2 < d"
proof (rule ccontr)
  assume g: "2 < fl64 d" and "\<not> 2 < d"
  then have "d \<le> real_of_int 2" by simp
  then have "fl64 d \<le> real_of_int 2" by (rule fl64_le_int) simp
  with g show False by simp
qed

lemma validate_clamped_imp: "validate_clamped bbox s \<Longrightarrow> validate bbox"
proof (cases bbox)
  case (fields x1 y1 x2 y2)
  assume v: "validate_clamped bbox s"
  show ?thesis
  proof (cases "0 \<le> s")
    case False
    then have "clamp v 0 (real_of_int s) = 0" for v by (simp add: clamp_collapse)
    with v show ?thesis
      by (simp add: validate_clamped_def clamp_bbox_def validate_def fields)
  next
    case True
    then have S: "(0::real) \<le> real_of_int s" by simp
    from v have fx: "fl64 (clamp x2 0 (real_of_int s) - clamp x1 0 (real_of_int s)) > 2"
      and fy: "fl64 (clamp y2 0 (real_of_int s) - clamp y1 0 (real_of_int s)) > 2"
      by (simp_all add: validate_clamped_def clamp_bbox_def validate_def fields)
    from fx have cx: "clamp x2 0 (real_of_int s) - clamp x1 0 (real_of_int s) > 2"
      by (rule fl64_gt_2)
    from fy have cy: "clamp y2 0 (real_of_int s) - clamp y1 0 (real_of_int s) > 2"
      by (rule fl64_gt_2)
    have "x1 \<le> x2"
    proof (rule ccontr)
      assume "\<not> x1 \<le> x2"
      then have "clamp x2 0 (real_of_int s) \<le> clamp x1 0 (real_of_int s)"
        by (intro clamp_mono) simp
      with cx show False by simp
    qed
    from clamp_nonexpansive [OF S this]
    have "fl64 (clamp x2 0 (real_of_int s) - clamp x1 0 (real_of_int s)) \<le> fl64 (x2 - x1)"
      by (rule fl64_mono)
    with fx have x: "fl64 (x2 - x1) > 2" by simp
    have "y1 \<le> y2"
    proof (rule ccontr)
      assume "\<not> y1 \<le> y2"
      then have "clamp y2 0 (real_of_int s) \<le> clamp y1 0 (real_of_int s)"
        by (intro clamp_mono) simp
      with cy show False by simp
    qed
    from clamp_nonexpansive [OF S this]
    have "fl64 (clamp y2 0 (real_of_int s) - clamp y1 0 (real_of_int s)) \<le> fl64 (y2 - y1)"
      by (rule fl64_mono)
    with fy have y: "fl64 (y2 - y1) > 2" by simp
    from x y show ?thesis by (simp add: validate_def fields)
  qed
qed

lemma validate_clamped_inside:
  assumes "0 \<le> x1" "x2 \<le> real_of_int s" "0 \<le> y1" "y2 \<le> real_of_int s"
  shows "validate_clamped (x1, y1, x2, y2) s \<longleftrightarrow> validate (x1, y1, x2, y2)"
proof
  assume "validate_clamped (x1, y1, x2, y2) s"
  then show "validate (x1, y1, x2, y2)" by (rule validate_clamped_imp)
next
  assume v: "validate (x1, y1, x2, y2)"
  then have "x2 - x1 > 2" "y2 - y1 > 2" by (simp_all add: validate_def fl64_gt_2)
  with assms have "clamp x1 0 (real_of_int s) = x1" "clamp x2 0 (real_of_int s) = x2"
    "clamp y1 0 (real_of_int s) = y1" "clamp y2 0 (real_of_int s) = y2"
    by (simp_all add: clamp_def min_def max_def)
  with v show "validate_clamped (x1, y1, x2, y2) s"
    by (simp add: validate_clamped_def clamp_bbox_def)
qed

subsection \<open>The geometry solver\<close>

lemma map_point_value:
  "map_point E h p =
     Inr (case p of (x, y) \<Rightarrow>
            case np_matvec E h (np_float32 E x, np_float32 E y, np_float32 E 1) of (tx, ty, tz) \<Rightarrow>
              if tz = 0 then (x, y) else (float_op E (tx / tz), float_op E (ty / tz)))"
  by (simp add: map_point_def np_div_def err_bind_def split: prod.splits)

lemma apply_homography_value:
  "apply_homography E pts h =
     Inr (map (\<lambda>p. case p of (x, y) \<Rightarrow>
            case np_matvec E h (np_float32 E x, np_float32 E y, np_float32 E 1) of (tx, ty, tz) \<Rightarrow>
              if tz = 0 then (x, y) else (float_op E (tx / tz), float_op E (ty / tz))) pts)"
  by (induction pts) (simp_all add: map_point_value err_bind_def)

text \<open>The cast to \<^verbatim>\<open>float32\<close> of line 134 rounds \<open>2\<^sup>2\<^sup>4 + 1\<close> to \<open>2\<^sup>2\<^sup>4\<close>.\<close>

lemma float32_2p24: "fl32 16777217 = 16777216"
  by (subst fl32_eval [where e = 24]) (simp_all add: pow2_def round_half_even_def)

lemma double_2p24: "fl64 16777216 = 16777216"
  by simp

lemma identity_cast_point:
  "apply_homography tape_env [(16777217, 0)] ((1, 0, 0), (0, 1, 0), (0, 0, 1)) = Inr [(16777216, 0)]"
  by (simp add: apply_homography_value tape_fields float32_2p24 matvec64_def)

lemma solve_homography_wrong_count:
  "length src \<noteq> 4 \<or> length dst \<noteq> 4 \<Longrightarrow>
   solve_homography E src dst = Inl InvalidCorrespondenceCount"
  by (simp add: solve_homography_def)

lemma solve_homography_four:
  assumes "length src = 4" and "length dst = 4"
  shows "solve_homography E src dst =
     reshape33 (np_lstsq E (fst (homography_system E src dst)) (snd (homography_system E src dst)) @ [1])"
  using assms by (simp add: solve_homography_def split: prod.splits)

lemma reshape33_cases:
  "reshape33 xs = Inl ReshapeError \<or> (\<exists>m. reshape33 xs = Inr m)"
  by (simp add: reshape33_def)

lemma reshape33_last:
  "length xs = 8 \<Longrightarrow> \<exists>m. reshape33 (xs @ [1]) = Inr m \<and> entry22 m = 1"
  by (simp add: reshape33_def entry22_def nth_append)

text \<open>The system and its solution for one quadrilateral on a canvas of 100 by 50.\<close>

lemma sample_system:
  "homography_system exact_env [(0, 0), (100, 0), (100, 50), (0, 50)] [(4, 1), (92, 2), (98, 46), (0, 47)] =
  ([[0, 0, 1, 0, 0, 0, 0, 0], [0, 0, 0, 0, 0, 1, 0, 0],
    [100, 0, 1, 0, 0, 0, -9200, 0], [0, 0, 0, 100, 0, 1, -200, 0],
    [100, 50, 1, 0, 0, 0, -9800, -4900], [0, 0, 0, 100, 50, 1, -4600, -2300],
    [0, 50, 1, 0, 0, 0, 0, 0], [0, 0, 0, 0, 50, 1, 0, -2350]],
   [4, 1, 92, 2, 98, 46, 0, 47])"
  by (simp add: homography_system_def pair_rows_def pair_rhs_def exact_fields)

lemma sample_solution:
  "exact_lstsq [[0, 0, 1, 0, 0, 0, 0, 0], [0, 0, 0, 0, 0, 1, 0, 0],
    [100, 0, 1, 0, 0, 0, -9200, 0], [0, 0, 0, 100, 0, 1, -200, 0],
    [100, 50, 1, 0, 0, 0, -9800, -4900], [0, 0, 0, 100, 50, 1, -4600, -2300],
    [0, 50, 1, 0, 0, 0, 0, 0], [0, 0, 0, 0, 50, 1, 0, -2350]]
   [4, 1, 92, 2, 98, 46, 0, 47] =
   [49637 / 53975, - (2 / 25), 4, 469 / 43180, 44346 / 53975, 1, 93 / 215900, - (113 / 53975)]"
  by (simp add: exact_lstsq_def numeral_eq_Suc)

subsection \<open>The homography of the canvas corners\<close>

lemma residual_nonneg: "0 \<le> residual a b h"
  unfolding residual_def by (rule sum_list_nonneg) (auto simp: set_zip)

lemma weights_nonzero:
  fixes W H :: real
  assumes e0x: "c = u0" and e0y: "f = v0"
    and e1x: "W * a + c - u1 * W * g = u1" and e1y: "W * d + f - v1 * W * g = v1"
    and e2x: "W * a + H * b + c - u2 * W * g - u2 * H * i = u2"
    and e2y: "W * d + H * e + f - v2 * W * g - v2 * H * i = v2"
    and e3x: "H * b + c - u3 * H * i = u3" and e3y: "H * e + f - v3 * H * i = v3"
    and t023: "turn3 (u0, v0) (u2, v2) (u3, v3) \<noteq> 0"
    and t013: "turn3 (u0, v0) (u1, v1) (u3, v3) \<noteq> 0"
    and t012: "turn3 (u0, v0) (u1, v1) (u2, v2) \<noteq> 0"
  shows "W * g + 1 \<noteq> 0" and "W * g + H * i + 1 \<noteq> 0" and "H * i + 1 \<noteq> 0"
proof -
  define G where "G = W * g"
  define I where "I = H * i"
  have sx: "(u1 - u2) * G + (u3 - u2) * I = u0 - u1 + u2 - u3"
    using e0x e1x e2x e3x unfolding G_def I_def by (simp add: algebra_simps)
  have sy: "(v1 - v2) * G + (v3 - v2) * I = v0 - v1 + v2 - v3"
    using e0y e1y e2y e3y unfolding G_def I_def by (simp add: algebra_simps)
  show "W * g + 1 \<noteq> 0"
  proof
    assume "W * g + 1 = 0"
    then have G: "G = -1" by (simp add: G_def)
    have a: "u3 - u0 = (u2 - u3) * I" using sx G by (simp add: algebra_simps)
    have b: "v3 - v0 = (v2 - v3) * I" using sy G by (simp add: algebra_simps)
    have a': "u2 - u0 = (u2 - u3) * (1 + I)" using a by (simp add: algebra_simps)
    have b': "v2 - v0 = (v2 - v3) * (1 + I)" using b by (simp add: algebra_simps)
    have "turn3 (u0, v0) (u2, v2) (u3, v3) = 0"
      by (simp add: turn3_def a b a' b')
    with t023 show False by simp
  qed
  show "H * i + 1 \<noteq> 0"
  proof
    assume "H * i + 1 = 0"
    then have I: "I = -1" by (simp add: I_def)
    have a: "u1 - u0 = (u2 - u1) * G" using sx I by (simp add: algebra_simps)
    have b: "v1 - v0 = (v2 - v1) * G" using sy I by (simp add: algebra_simps)
    have a': "u2 - u0 = (u2 - u1) * (1 + G)" using a by (simp add: algebra_simps)
    have b': "v2 - v0 = (v2 - v1) * (1 + G)" using b by (simp add: algebra_simps)
    have "turn3 (u0, v0) (u1, v1) (u2, v2) = 0"
      by (simp add: turn3_def a b a' b')
    with t012 show False by simp
  qed
  show "W * g + H * i + 1 \<noteq> 0"
  proof
    assume "W * g + H * i + 1 = 0"
    then have I: "I = - 1 - G" by (simp add: G_def I_def algebra_simps)
    have a: "u1 - u0 = (u3 - u1) * G" using sx I by (simp add: algebra_simps)
    have b: "v1 - v0 = (v3 - v1) * G" using sy I by (simp add: algebra_simps)
    have a': "u3 - u0 = (u3 - u1) * (1 + G)" using a by (simp add: algebra_simps)
    have b': "v3 - v0 = (v3 - v1) * (1 + G)" using b by (simp add: algebra_simps)
    have "turn3 (u0, v0) (u1, v1) (u3, v3) = 0"
      by (simp add: turn3_def a b a' b')
    with t013 show False by simp
  qed
qed

lemma solution_exists:
  fixes W H :: real
  assumes W: "W \<noteq> 0" and H: "H \<noteq> 0"
    and t123: "turn3 (u1, v1) (u2, v2) (u3, v3) \<noteq> 0"
  shows "\<exists>a b c d e f g i.
      c = u0 \<and> f = v0 \<and>
      W * a + c - u1 * W * g = u1 \<and> W * d + f - v1 * W * g = v1 \<and>
      W * a + H * b + c - u2 * W * g - u2 * H * i = u2 \<and>
      W * d + H * e + f - v2 * W * g - v2 * H * i = v2 \<and>
      H * b + c - u3 * H * i = u3 \<and> H * e + f - v3 * H * i = v3"
proof -
  define D where "D = (u1 - u2) * (v3 - v2) - (u3 - u2) * (v1 - v2)"
  have D: "D \<noteq> 0"
  proof -
    have "D = - turn3 (u1, v1) (u2, v2) (u3, v3)"
      by (simp add: D_def turn3_def algebra_simps)
    with t123 show ?thesis by simp
  qed
  define sx where "sx = u0 - u1 + u2 - u3"
  define sy where "sy = v0 - v1 + v2 - v3"
  define G where "G = (sx * (v3 - v2) - (u3 - u2) * sy) / D"
  define I where "I = ((u1 - u2) * sy - sx * (v1 - v2)) / D"
  have GD: "G * D = sx * (v3 - v2) - (u3 - u2) * sy"
    and ID: "I * D = (u1 - u2) * sy - sx * (v1 - v2)"
    using D by (simp_all add: G_def I_def)
  have gx: "(u1 - u2) * G + (u3 - u2) * I = sx"
  proof -
    have "((u1 - u2) * G + (u3 - u2) * I) * D = (u1 - u2) * (G * D) + (u3 - u2) * (I * D)"
      by (simp add: algebra_simps)
    also have "\<dots> = sx * D"
      unfolding GD ID by (simp add: D_def algebra_simps)
    finally show ?thesis using D by simp
  qed
  have gy: "(v1 - v2) * G + (v3 - v2) * I = sy"
  proof -
    have "((v1 - v2) * G + (v3 - v2) * I) * D = (v1 - v2) * (G * D) + (v3 - v2) * (I * D)"
      by (simp add: algebra_simps)
    also have "\<dots> = sy * D"
      unfolding GD ID by (simp add: D_def algebra_simps)
    finally show ?thesis using D by simp
  qed
  define g where "g = G / W"
  define i where "i = I / H"
  define a where "a = (u1 - u0 + u1 * G) / W"
  define b where "b = (u3 - u0 + u3 * I) / H"
  define d where "d = (v1 - v0 + v1 * G) / W"
  define e where "e = (v3 - v0 + v3 * I) / H"
  have Wg: "W * g = G" and Hi: "H * i = I" and Wa: "W * a = u1 - u0 + u1 * G"
    and Hb: "H * b = u3 - u0 + u3 * I" and Wd: "W * d = v1 - v0 + v1 * G"
    and He: "H * e = v3 - v0 + v3 * I"
    using W H by (simp_all add: g_def i_def a_def b_def d_def e_def)
  have "W * a + u0 - u1 * W * g = u1"
    using Wa Wg by (simp add: algebra_simps)
  moreover have "W * d + v0 - v1 * W * g = v1"
    using Wd Wg by (simp add: algebra_simps)
  moreover have "H * b + u0 - u3 * H * i = u3"
    using Hb Hi by (simp add: algebra_simps)
  moreover have "H * e + v0 - v3 * H * i = v3"
    using He Hi by (simp add: algebra_simps)
  moreover have "W * a + H * b + u0 - u2 * W * g - u2 * H * i = u2"
  proof -
    have "W * a + H * b + u0 - u2 * (W * g) - u2 * (H * i) = u2"
      unfolding Wa Hb Wg Hi using gx by (simp add: sx_def algebra_simps)
    then show ?thesis by (simp add: algebra_simps)
  qed
  moreover have "W * d + H * e + v0 - v2 * W * g - v2 * H * i = v2"
  proof -
    have "W * d + H * e + v0 - v2 * (W * g) - v2 * (H * i) = v2"
      unfolding Wd He Wg Hi using gy by (simp add: sy_def algebra_simps)
    then show ?thesis by (simp add: algebra_simps)
  qed
  ultimately show ?thesis by blast
qed

lemma random_perspective_points_shape:
  assumes "random_perspective_points E w h s g = ((src, dst), g')"
  shows "src = [(0, 0), (real_of_int w, 0), (real_of_int w, real_of_int h), (0, real_of_int h)]"
    and "length dst = 4"
  using assms by (auto simp: random_perspective_points_def Let_def split: prod.splits)

lemma list4: "length xs = 4 \<Longrightarrow> \<exists>a b c d. xs = [a, b, c, d]"
  by (auto simp: length_Suc_conv numeral_eq_Suc)

lemma list8: "length xs = 8 \<Longrightarrow> \<exists>a b c d e f g i. xs = [a, b, c, d, e, f, g, i]"
  by (auto simp: length_Suc_conv numeral_eq_Suc)

lemma system_shape:
  "length src = 4 \<Longrightarrow> length dst = 4 \<Longrightarrow> length (hd (fst (homography_system E src dst))) = 8"
  by (auto simp: homography_system_def pair_rows_def dest!: list4 split: prod.splits)

lemma exact_ops:
  assumes "exact_arithmetic E"
  shows "float_op E = (\<lambda>x. x)" and "np_float32 E = (\<lambda>x. x)" and "np_matvec E = matvec3"
  using assms by (simp_all add: exact_arithmetic_def)

lemma canvas_residual:
  assumes "exact_arithmetic E"
    and "homography_system E [(0, 0), (W, 0), (W, H), (0, H)] [(u0, v0), (u1, v1), (u2, v2), (u3, v3)] = (A, B)"
  shows "residual A B [a, b, c, d, e, f, g, i] =
   (c - u0)\<^sup>2 + (f - v0)\<^sup>2 +
   (W * a + c - u1 * W * g - u1)\<^sup>2 + (W * d + f - v1 * W * g - v1)\<^sup>2 +
   (W * a + H * b + c - u2 * W * g - u2 * H * i - u2)\<^sup>2 +
   (W * d + H * e + f - v2 * W * g - v2 * H * i - v2)\<^sup>2 +
   (H * b + c - u3 * H * i - u3)\<^sup>2 + (H * e + f - v3 * H * i - v3)\<^sup>2"
proof -
  note ops = exact_ops [OF assms(1)]
  from assms(2) have A: "A = concat (map (pair_rows E) (zip [(0, 0), (W, 0), (W, H), (0, H)] [(u0, v0), (u1, v1), (u2, v2), (u3, v3)]))"
    and B: "B = [u0, v0, u1, v1, u2, v2, u3, v3]"
    by (simp_all add: homography_system_def pair_rhs_def ops)
  show ?thesis
    unfolding A B by (simp add: pair_rows_def ops residual_def dot_def algebra_simps)
qed

lemma sum8_squares_zero:
  fixes t1 :: real
  assumes "t1\<^sup>2 + t2\<^sup>2 + t3\<^sup>2 + t4\<^sup>2 + t5\<^sup>2 + t6\<^sup>2 + t7\<^sup>2 + t8\<^sup>2 \<le> 0"
  shows "t1 = 0 \<and> t2 = 0 \<and> t3 = 0 \<and> t4 = 0 \<and> t5 = 0 \<and> t6 = 0 \<and> t7 = 0 \<and> t8 = 0"
proof -
  have nn: "0 \<le> t1\<^sup>2" "0 \<le> t2\<^sup>2" "0 \<le> t3\<^sup>2" "0 \<le> t4\<^sup>2" "0 \<le> t5\<^sup>2" "0 \<le> t6\<^sup>2" "0 \<le> t7\<^sup>2" "0 \<le> t8\<^sup>2"
    by simp_all
  with assms have "t1\<^sup>2 = 0 \<and> t2\<^sup>2 = 0 \<and> t3\<^sup>2 = 0 \<and> t4\<^sup>2 = 0 \<and> t5\<^sup>2 = 0 \<and> t6\<^sup>2 = 0 \<and> t7\<^sup>2 = 0 \<and> t8\<^sup>2 = 0"
    by linarith
  then show ?thesis by simp
qed

lemma map_point_exact:
  assumes "exact_arithmetic E" and "tz \<noteq> 0" and "matvec3 m (x, y, 1) = (u * tz, v * tz, tz)"
  shows "map_point E m (x, y) = Inr (u, v)"
  using assms(2,3) by (simp add: map_point_def np_div_def err_bind_def exact_ops [OF assms(1)])

text \<open>
  Over exact arithmetic, a least-squares solution of the system of the canvas corners
  and a non-degenerate quadrilateral solves it exactly, and the matrix built from it
  maps corner to corner.
\<close>

lemma canvas_corners_to_dst:
  fixes W H :: real
  assumes exact: "exact_arithmetic E" and W: "W \<noteq> 0" and H: "H \<noteq> 0"
    and src: "src = [(0, 0), (W, 0), (W, H), (0, H)]"
    and nd: "nondegenerate_quad dst"
    and ls: "least_squares E (fst (homography_system E src dst)) (snd (homography_system E src dst))"
  shows "\<exists>m. solve_homography E src dst = Inr m \<and> apply_homography E src m = Inr dst"
proof -
  from nd have len: "length dst = 4" by (simp add: nondegenerate_quad_def)
  then obtain d0 d1 d2 d3 where dst: "dst = [d0, d1, d2, d3]" using list4 by blast
  obtain u0 v0 u1 v1 u2 v2 u3 v3 where
    d: "d0 = (u0, v0)" "d1 = (u1, v1)" "d2 = (u2, v2)" "d3 = (u3, v3)"
    by (cases d0, cases d1, cases d2, cases d3) auto
  from nd have t123: "turn3 (u1, v1) (u2, v2) (u3, v3) \<noteq> 0"
    and t023: "turn3 (u0, v0) (u2, v2) (u3, v3) \<noteq> 0"
    and t013: "turn3 (u0, v0) (u1, v1) (u3, v3) \<noteq> 0"
    and t012: "turn3 (u0, v0) (u1, v1) (u2, v2) \<noteq> 0"
    by (simp_all add: nondegenerate_quad_def dst d)
  define A where "A = fst (homography_system E src dst)"
  define B where "B = snd (homography_system E src dst)"
  have AB: "homography_system E src dst = (A, B)" by (simp add: A_def B_def)
  have cols: "length (hd A) = 8"
    unfolding A_def by (rule system_shape) (simp_all add: src len)
  from ls have shape: "length (np_lstsq E A B) = 8"
    and minimal: "\<And>h. length h = 8 \<Longrightarrow> residual A B (np_lstsq E A B) \<le> residual A B h"
    using cols by (simp_all add: least_squares_def A_def [symmetric] B_def [symmetric])
  from shape obtain a b c d e f g i where hs: "np_lstsq E A B = [a, b, c, d, e, f, g, i]"
    using list8 by blast
  have res: "residual A B [a', b', c', d', e', f', g', i'] =
     (c' - u0)\<^sup>2 + (f' - v0)\<^sup>2 +
     (W * a' + c' - u1 * W * g' - u1)\<^sup>2 + (W * d' + f' - v1 * W * g' - v1)\<^sup>2 +
     (W * a' + H * b' + c' - u2 * W * g' - u2 * H * i' - u2)\<^sup>2 +
     (W * d' + H * e' + f' - v2 * W * g' - v2 * H * i' - v2)\<^sup>2 +
     (H * b' + c' - u3 * H * i' - u3)\<^sup>2 + (H * e' + f' - v3 * H * i' - v3)\<^sup>2"
    for a' b' c' d' e' f' g' i'
    by (rule canvas_residual [OF exact]) (simp add: AB [unfolded src dst d])
  from solution_exists [OF W H t123, of u0 v0] obtain a0 b0 c0 d0' e0 f0 g0 i0 where
    "c0 = u0" "f0 = v0"
    "W * a0 + c0 - u1 * W * g0 = u1" "W * d0' + f0 - v1 * W * g0 = v1"
    "W * a0 + H * b0 + c0 - u2 * W * g0 - u2 * H * i0 = u2"
    "W * d0' + H * e0 + f0 - v2 * W * g0 - v2 * H * i0 = v2"
    "H * b0 + c0 - u3 * H * i0 = u3" "H * e0 + f0 - v3 * H * i0 = v3"
    by blast
  then have "residual A B [a0, b0, c0, d0', e0, f0, g0, i0] = 0"
    by (simp add: res)
  with minimal [of "[a0, b0, c0, d0', e0, f0, g0, i0]"]
  have "residual A B [a, b, c, d, e, f, g, i] \<le> 0" by (simp add: hs)
  then have eqs: "c - u0 = 0 \<and> f - v0 = 0 \<and>
     W * a + c - u1 * W * g - u1 = 0 \<and> W * d + f - v1 * W * g - v1 = 0 \<and>
     W * a + H * b + c - u2 * W * g - u2 * H * i - u2 = 0 \<and>
     W * d + H * e + f - v2 * W * g - v2 * H * i - v2 = 0 \<and>
     H * b + c - u3 * H * i - u3 = 0 \<and> H * e + f - v3 * H * i - v3 = 0"
    unfolding res by (rule sum8_squares_zero)
  then have e0x: "c = u0" and e0y: "f = v0"
    and e1x: "W * a + c - u1 * W * g = u1" and e1y: "W * d + f - v1 * W * g = v1"
    and e2x: "W * a + H * b + c - u2 * W * g - u2 * H * i = u2"
    and e2y: "W * d + H * e + f - v2 * W * g - v2 * H * i = v2"
    and e3x: "H * b + c - u3 * H * i = u3" and e3y: "H * e + f - v3 * H * i = v3"
    by simp_all
  note wz = weights_nonzero [OF e0x e0y e1x e1y e2x e2y e3x e3y t023 t013 t012]
  define m :: mat3 where "m = ((a, b, c), (d, e, f), (g, i, 1))"
  have solve: "solve_homography E src dst = Inr m"
    by (simp add: solve_homography_def src dst AB [unfolded src dst] hs reshape33_def m_def)
  have p0: "map_point E m (0, 0) = Inr (u0, v0)"
    by (rule map_point_exact [OF exact, where tz = 1]) (simp_all add: m_def matvec3_def e0x e0y)
  have p1: "map_point E m (W, 0) = Inr (u1, v1)"
    by (rule map_point_exact [OF exact, where tz = "W * g + 1"])
       (use wz e1x e1y in \<open>simp_all add: m_def matvec3_def algebra_simps\<close>)
  have p2: "map_point E m (W, H) = Inr (u2, v2)"
    by (rule map_point_exact [OF exact, where tz = "W * g + H * i + 1"])
       (use wz e2x e2y in \<open>simp_all add: m_def matvec3_def algebra_simps\<close>)
  have p3: "map_point E m (0, H) = Inr (u3, v3)"
    by (rule map_point_exact [OF exact, where tz = "H * i + 1"])
       (use wz e3x e3y in \<open>simp_all add: m_def matvec3_def algebra_simps\<close>)
  have "apply_homography E src m = Inr dst"
    by (simp add: src dst d p0 p1 p2 p3 err_bind_def)
  with solve show ?thesis by blast
qed

lemma gauss_solve_length: "length (gauss_solve n rows) = n"
  by (induction n arbitrary: rows) (simp_all add: Let_def split: list.splits)

lemma exact_lstsq_shape: "length (exact_lstsq a b) = length (hd a)"
  by (simp add: exact_lstsq_def gauss_solve_length)

lemma sample_draws:
  "random_perspective_points exact_env 100 50 (float_op exact_env 0.08)
       [1/2, 1/4, 1, 1/2, 1/4, 1, 0, 3/4, 3/4, 3/4] =
     (([(0, 0), (100, 0), (100, 50), (0, 50)], [(4, 1), (92, 2), (98, 46), (0, 47)]), [3/4, 3/4])"
  by (simp add: random_perspective_points_def exact_uniform exact_fields)

lemma augment_perspective_steps:
  assumes "im_size E img = (w, h)"
    and "random_perspective_points E w h (float_op E 0.08) g = ((src, dst), g1)"
    and "perspective_coeffs E dst src = Inr coeffs"
    and "solve_homography E src dst = Inr m"
    and "apply_homography E [(x1, y1), (x2, y1), (x2, y2), (x1, y2)] m = Inr tpts"
  shows "augment_perspective E img (x1, y1, x2, y2) g =
     Inr ((im_transform E img (w, h) coeffs, enclosing tpts), g1)"
  unfolding augment_perspective_def
  by (simp only: assms prod.case err_bind_def sum.case Let_def enclosing_def)

subsection \<open>The resize target and the placement range\<close>

text \<open>The rounded product and the target on a canvas of 320: the scales 13/128, 0.15 and 1.\<close>

lemma double_65_2: "fl64 (65/2) = 65/2"
  using fl64_dyadic [of 65 5 "- 1"] by (simp add: pow2_def)

lemma target_320_half: "resize_target 320 320 (13/128) = Inr 32"
proof -
  have "real_of_int (min 320 320) * (13/128) = (65/2 :: real)" by simp
  then have "resize_target 320 320 (13/128) =
      err_bind (py_int (65/2)) (\<lambda>target. Inr (max 8 target))"
    by (simp only: resize_target_def double_65_2)
  then show ?thesis
    by (simp add: py_int_def trunc_def err_bind_def)
qed

lemma product_320_015: "fl64 (320 * (5404319552844595 / 2 ^ 55)) = 48"
  by (subst fl64_eval [where e = 5]) (simp_all add: pow2_def round_half_even_def)

lemma target_320_015: "resize_target 320 320 (fl64 (3/20)) = Inr 48"
proof -
  have "real_of_int (min 320 320) * fl64 (3/20) = 320 * (5404319552844595 / 2 ^ 55)"
    by (simp add: double_015)
  then have "resize_target 320 320 (fl64 (3/20)) =
      err_bind (py_int 48) (\<lambda>target. Inr (max 8 target))"
    by (simp only: resize_target_def product_320_015)
  then show ?thesis
    by (simp add: py_int_def trunc_def err_bind_def)
qed

lemma target_320_1: "resize_target 320 320 1 = Inr 320"
  by (simp add: resize_target_def py_int_def trunc_def err_bind_def)

text \<open>The general form of the target, and its distance from the exact product.\<close>

lemma resize_target_value:
  "resize_target cw ch scale =
     (if 2 ^ 1024 \<le> \<bar>fl64 (real_of_int (min cw ch) * scale)\<bar> then Inl OverflowError
      else Inr (max 8 \<lfloor>fl64 (real_of_int (min cw ch) * scale)\<rfloor>))"
  by (simp add: resize_target_def py_int_def err_bind_def max8_trunc)

lemma resize_target_bounds:
  assumes "0 \<le> p" and "p \<le> 2 ^ 53" and "p = real_of_int (min cw ch) * scale"
  shows "\<exists>t. resize_target cw ch scale = Inr t \<and> max 8 \<lfloor>p\<rfloor> \<le> t \<and> t \<le> max 8 \<lceil>p\<rceil> \<and>
           (real_of_int t = p \<longleftrightarrow> p \<in> \<int> \<and> 8 \<le> p)"
proof -
  define P where "P = fl64 p"
  have b: "real_of_int \<lfloor>p\<rfloor> \<le> P" "P \<le> real_of_int \<lceil>p\<rceil>"
    using fl64_between [OF assms(1,2)] by (simp_all add: P_def)
  have P0: "0 \<le> P" using assms(1) by (simp add: P_def fl64_nonneg)
  have "p \<le> real_of_int (2 ^ 53)" using assms(2) by simp
  then have "P \<le> real_of_int (2 ^ 53)" unfolding P_def by (rule fl64_le_int) simp
  then have "\<bar>P\<bar> < 2 ^ 1024" using P0 by simp
  then have t: "resize_target cw ch scale = Inr (max 8 \<lfloor>P\<rfloor>)"
    by (simp add: resize_target_value assms(3) [symmetric] P_def [symmetric])
  have lo: "\<lfloor>p\<rfloor> \<le> \<lfloor>P\<rfloor>" using b(1) by (simp add: le_floor_iff)
  have hi: "\<lfloor>P\<rfloor> \<le> \<lceil>p\<rceil>" using b(2) by (simp add: floor_le_iff)
  have m1: "max 8 \<lfloor>p\<rfloor> \<le> max 8 \<lfloor>P\<rfloor>" by (rule max.mono [OF order_refl lo])
  have m2: "max 8 \<lfloor>P\<rfloor> \<le> max 8 \<lceil>p\<rceil>" by (rule max.mono [OF order_refl hi])
  have m3: "real_of_int (max 8 \<lfloor>P\<rfloor>) = p \<longleftrightarrow> p \<in> \<int> \<and> 8 \<le> p"
  proof
    assume e: "real_of_int (max 8 \<lfloor>P\<rfloor>) = p"
    then have "p \<in> \<int>" by (metis Ints_of_int)
    moreover have "8 \<le> real_of_int (max 8 \<lfloor>P\<rfloor>)" by simp
    ultimately show "p \<in> \<int> \<and> 8 \<le> p" using e by simp
  next
    assume "p \<in> \<int> \<and> 8 \<le> p"
    then obtain n where n: "p = real_of_int n" and "8 \<le> p" by (auto elim: Ints_cases)
    then have n8: "8 \<le> n" by simp
    have "real_of_int n \<le> real_of_int (2 ^ 53)" using assms(2) n by simp
    then have "n \<le> 2 ^ 53" by (simp only: of_int_le_iff)
    with n8 have "\<bar>n\<bar> \<le> 2 ^ 53" by simp
    then have "P = real_of_int n" unfolding P_def n by (rule fl64_int)
    then show "real_of_int (max 8 \<lfloor>P\<rfloor>) = p" using n8 by (simp add: n max_def)
  qed
  show ?thesis
    by (intro exI [of _ "max 8 \<lfloor>P\<rfloor>"] conjI t m1 m2 m3)
qed

text \<open>A square image of side 50 resized to the long side 57 gets the height 56.\<close>

lemma resize_square_57: "resize_keep_aspect tape_env (50, 50) 57 = Inr (57, 56)"
proof -
  have q: "fl64 (57/50) = 5134103575202365 / 2 ^ 52"
    by (subst fl64_eval [where e = 0]) (simp_all add: pow2_def round_half_even_def)
  have p: "fl64 (50 * (5134103575202365 / 2 ^ 52)) = 8022036836253695 / 2 ^ 47"
    by (subst fl64_eval [where e = 5]) (simp_all add: pow2_def round_half_even_def)
  have s: "resize_keep_aspect tape_env (50, 50) 57 =
     err_bind (py_int (fl64 (50 * fl64 (57/50))))
       (\<lambda>new_h. Inr (57, max 1 new_h))"
    by (simp add: resize_keep_aspect_def tape_fields)
  show ?thesis
    unfolding s q p by (simp add: py_int_def trunc_def err_bind_def)
qed

lemma resize_square_320: "resize_keep_aspect tape_env (64, 64) 320 = Inr (320, 320)"
  by (simp add: resize_keep_aspect_def tape_fields py_int_def trunc_def err_bind_def)

text \<open>A foreground strictly smaller than the canvas along an axis is placed inside it; otherwise the range is 0 to 1.\<close>

lemma placement_inside:
  "fgside < canvas \<Longrightarrow> 0 \<le> x \<Longrightarrow> x \<le> placement_max canvas fgside \<Longrightarrow> x + fgside \<le> canvas"
  by (simp add: placement_max_def)

lemma placement_max_full: "canvas \<le> fgside \<Longrightarrow> placement_max canvas fgside = 1"
  by (simp add: placement_max_def)

subsection \<open>The cast of a point\<close>

text \<open>
  The point \<open>(0.1, 0)\<close> and a matrix whose weight row is \<open>(1, 0, -0.1)\<close>: the cast of line
  134 moves \<open>x\<close> off the double 0.1, so the weight is not 0 and the point is divided.
\<close>

lemma cast_point_divided:
  "apply_homography tape_env [(fl64 (1/10), 0)] ((1, 0, 0), (0, 1, 0), (1, 0, - fl64 (1/10))) =
     Inr [(268435461 / 4, 0)]"
proof -
  have d: "fl64 (1/10) = 3602879701896397 / 36028797018963968"
    by (subst fl64_eval [where e = "- 4"]) (simp_all add: pow2_def round_half_even_def)
  have c: "fl32 (3602879701896397 / 36028797018963968) = 13421773 / 134217728"
    by (subst fl32_eval [where e = "- 4"]) (simp_all add: pow2_def round_half_even_def)
  have p: "fl64 (13421773 / 134217728) = 13421773 / 134217728"
    by (subst fl64_eval [where e = "- 4"]) (simp_all add: pow2_def round_half_even_def)
  have n: "fl64 (3602879701896397 / 36028797018963968) = 3602879701896397 / 36028797018963968"
    by (subst fl64_eval [where e = "- 4"]) (simp_all add: pow2_def round_half_even_def)
  have z: "fl64 (53687091 / 36028797018963968) = 53687091 / 36028797018963968"
    by (subst fl64_eval [where e = "- 30"]) (simp_all add: pow2_def round_half_even_def)
  have q: "fl64 (3602879755583488 / 53687091) = 268435461 / 4"
    by (subst fl64_eval [where e = 26]) (simp_all add: pow2_def round_half_even_def)
  show ?thesis
    unfolding apply_homography_value tape_fields d
    by (simp add: matvec64_def c p n z q fl64_minus)
qed

section \<open>The claims\<close>

text \<open>
  C1, as the specification words it, fails: on a canvas of side 2 the first attempt of the
  concrete environment yields the box \<open>(0, 0, 8, 8)\<close>, the loop accepts it at once, and
  the box clamped to the canvas is only 2 wide.
\<close>

theorem validate_clamped_counterexample:
  "retry_loop tape_env (default_args 2) [''minimap''] [''champion''] 0 plain_draws None =
     (1, Inr (Some ((2, 2), (0, 0, 8, 8)), []))
   \<and> \<not> validate_clamped (0, 0, 8, 8) 2"
proof -
  have a: "one_attempt tape_env (default_args 2) [''minimap''] [''champion''] plain_draws =
     Inr (((2, 2), (0, 0, 8, 8)), [])"
    using tiny_canvas_attempt [of "[]"] by simp
  have v: "validate (0, 0, 8, 8)" by (simp add: validate_def)
  have "retry_loop tape_env (default_args 2) [''minimap''] [''champion''] 0 plain_draws None =
     (1, Inr (Some ((2, 2), (0, 0, 8, 8)), []))"
    by (rule retry_loop_accept [OF _ a v]) simp
  moreover have "\<not> validate_clamped (0, 0, 8, 8) 2"
    by (simp add: validate_clamped_def clamp_bbox_def validate_def clamp_def)
  ultimately show ?thesis by blast
qed

text \<open>
  C1, amended. The test of the retry loop reads the box as \<^verbatim>\<open>generate_one\<close>
  returned it, without clamping: a box that passes the clamped test passes it, and for a
  box inside the canvas the two tests agree. On each of the first four attempts the loop
  stops after this attempt exactly when the box is more than 2 wide and more than 2 high;
  the fifth attempt ends the loop whatever its box is.
\<close>

theorem validate_tests_unclamped_box:
  "(validate_clamped bbox s \<longrightarrow> validate bbox) \<and>
   (case bbox of (x1, y1, x2, y2) \<Rightarrow>
      0 \<le> x1 \<and> x2 \<le> real_of_int s \<and> 0 \<le> y1 \<and> y2 \<le> real_of_int s \<longrightarrow>
      (validate_clamped bbox s \<longleftrightarrow> validate bbox)) \<and>
   (tries < 4 \<and> one_attempt E A minimaps champions g = Inr ((img, bbox), g') \<longrightarrow>
      (fst (retry_loop E A minimaps champions tries g cur) = 1 \<longleftrightarrow> validate bbox)) \<and>
   (tries = 4 \<and> one_attempt E A minimaps champions g = Inr ((img, bbox), g') \<longrightarrow>
      retry_loop E A minimaps champions tries g cur = (1, Inr (Some (img, bbox), g')))"
proof (intro conjI impI)
  assume "validate_clamped bbox s"
  then show "validate bbox" by (rule validate_clamped_imp)
next
  show "case bbox of (x1, y1, x2, y2) \<Rightarrow>
      0 \<le> x1 \<and> x2 \<le> real_of_int s \<and> 0 \<le> y1 \<and> y2 \<le> real_of_int s \<longrightarrow>
      (validate_clamped bbox s \<longleftrightarrow> validate bbox)"
    by (cases bbox) (simp add: validate_clamped_inside)
next
  assume h: "tries < 4 \<and> one_attempt E A minimaps champions g = Inr ((img, bbox), g')"
  then have lt: "tries < 5" and lt': "tries + 1 < 5"
    and a: "one_attempt E A minimaps champions g = Inr ((img, bbox), g')"
    by simp_all
  show "fst (retry_loop E A minimaps champions tries g cur) = 1 \<longleftrightarrow> validate bbox"
  proof (cases "validate bbox")
    case True
    from retry_loop_accept [OF lt a True] True show ?thesis by simp
  next
    case False
    have "1 \<le> fst (retry_loop E A minimaps champions (tries + 1) g' (Some (img, bbox)))"
      using lt' by (rule retry_loop_calls_ge)
    then have "fst (retry_loop E A minimaps champions tries g cur) \<noteq> 1"
      unfolding retry_loop_reject [OF lt a False] by (simp add: fst_bump)
    with False show ?thesis by simp
  qed
next
  assume h: "tries = 4 \<and> one_attempt E A minimaps champions g = Inr ((img, bbox), g')"
  then have lt: "tries < 5" and t: "tries = 4"
    and a: "one_attempt E A minimaps champions g = Inr ((img, bbox), g')"
    by simp_all
  show "retry_loop E A minimaps champions tries g cur = (1, Inr (Some (img, bbox), g'))"
  proof (cases "validate bbox")
    case True
    from retry_loop_accept [OF lt a True] show ?thesis .
  next
    case False
    show ?thesis
      unfolding retry_loop_reject [OF lt a False]
      by (simp add: t retry_loop_exhausted)
  qed
qed

theorem validate_tests_unclamped_box_witness:
  "validate_clamped (10, 10, 50, 50) 320 \<and> validate (10, 10, 50, 50) \<and>
   one_attempt tape_env (default_args 2) [''minimap''] [''champion''] plain_draws =
     Inr (((2, 2), (0, 0, 8, 8)), []) \<and>
   validate (0, 0, 8, 8) \<and>
   fst (retry_loop tape_env (default_args 2) [''minimap''] [''champion''] 0 plain_draws None) = 1 \<and>
   one_attempt tape_env (default_args 320) [''minimap''] [''thin''] plain_draws =
     Inr (((320, 320), (0, 0, 25, 1)), []) \<and>
   \<not> validate (0, 0, 25, 1) \<and>
   fst (retry_loop tape_env (default_args 320) [''minimap''] [''thin''] 0 plain_draws None) \<noteq> 1 \<and>
   retry_loop tape_env (default_args 320) [''minimap''] [''thin''] 4 plain_draws None =
     (1, Inr (Some ((320, 320), (0, 0, 25, 1)), []))"
proof -
  have c: "validate_clamped (10, 10, 50, 50) 320"
    by (simp add: validate_clamped_def clamp_bbox_def validate_def clamp_def)
  have a1: "one_attempt tape_env (default_args 2) [''minimap''] [''champion''] plain_draws =
     Inr (((2, 2), (0, 0, 8, 8)), [])"
    using tiny_canvas_attempt [of "[]"] by simp
  have v1: "validate (0, 0, 8, 8)" by (simp add: validate_def)
  have a2: "one_attempt tape_env (default_args 320) [''minimap''] [''thin''] plain_draws =
     Inr (((320, 320), (0, 0, 25, 1)), [])"
    using thin_champion_attempt [of "[]"] by simp
  have v2: "\<not> validate (0, 0, 25, 1)" by (simp add: validate_def)
  have w1: "validate (10, 10, 50, 50)"
    by (rule validate_tests_unclamped_box [of "(10, 10, 50, 50)" 320, THEN conjunct1, THEN mp])
       (rule c)
  have "fst (retry_loop tape_env (default_args 2) [''minimap''] [''champion''] 0 plain_draws None) = 1
     \<longleftrightarrow> validate (0, 0, 8, 8)"
    by (rule validate_tests_unclamped_box [of "(0, 0, 8, 8)" 2 0 tape_env "default_args 2"
          "[''minimap'']" "[''champion'']" plain_draws "(2, 2)" "[]" None,
          THEN conjunct2, THEN conjunct2, THEN conjunct1, THEN mp])
       (simp add: a1)
  with v1 have w2:
    "fst (retry_loop tape_env (default_args 2) [''minimap''] [''champion''] 0 plain_draws None) = 1"
    by (rule_tac iffD2)
  have "fst (retry_loop tape_env (default_args 320) [''minimap''] [''thin''] 0 plain_draws None) = 1
     \<longleftrightarrow> validate (0, 0, 25, 1)"
    by (rule validate_tests_unclamped_box [of "(0, 0, 25, 1)" 320 0 tape_env "default_args 320"
          "[''minimap'']" "[''thin'']" plain_draws "(320, 320)" "[]" None,
          THEN conjunct2, THEN conjunct2, THEN conjunct1, THEN mp])
       (simp add: a2)
  with v2 have w3:
    "fst (retry_loop tape_env (default_args 320) [''minimap''] [''thin''] 0 plain_draws None) \<noteq> 1"
    by blast
  have w4: "retry_loop tape_env (default_args 320) [''minimap''] [''thin''] 4 plain_draws None =
     (1, Inr (Some ((320, 320), (0, 0, 25, 1)), []))"
    by (rule validate_tests_unclamped_box [of "(0, 0, 25, 1)" 320 4 tape_env "default_args 320"
          "[''minimap'']" "[''thin'']" plain_draws "(320, 320)" "[]" None,
          THEN conjunct2, THEN conjunct2, THEN conjunct2, THEN mp])
       (simp add: a2)
  show ?thesis
    by (intro conjI c w1 a1 v1 w2 a2 v2 w3 w4)
qed

text \<open>
  C2. Whatever the pools, the options and the draws, the retry loop of one sample index
  calls \<^verbatim>\<open>generate_one\<close> at least once and at most 5 times before \<^verbatim>\<open>main\<close> goes
  on to save the image and the label. \<open>retry_loop\<close> is a total function (its
  termination is proved with its definition), so the loop always ends.
\<close>

theorem retry_loop_at_most_five:
  "1 \<le> fst (retry_loop E A minimaps champions 0 g cur) \<and>
   fst (retry_loop E A minimaps champions 0 g cur) \<le> 5"
  using retry_loop_calls_le [of E A minimaps champions 0 g cur]
    retry_loop_calls_ge [of 0 E A minimaps champions g cur]
  by simp

text \<open>
  C3. Over exact arithmetic (the hypothesis \<open>exact_arithmetic\<close>: no operation of the
  geometry code rounds), with perspective on and the box equal to the full canvas
  rectangle, the box that \<^verbatim>\<open>augment_image\<close> returns is the axis-aligned rectangle
  enclosing the destination quadrilateral that was drawn. The canvas has non-zero sides,
  no three corners of the destination quadrilateral are collinear, and \<^verbatim>\<open>lstsq\<close> keeps
  its promise on the forward system (and returns eight values on the backward one, which
  only feeds the resampler).
\<close>

theorem warp_full_canvas_bbox:
  assumes exact: "exact_arithmetic E"
    and size: "im_size E img = (w, h)" and w: "w \<noteq> 0" and h: "h \<noteq> 0"
    and draws: "random_perspective_points E w h (float_op E 0.08) g = ((src, dst), g1)"
    and nd: "nondegenerate_quad dst"
    and ls: "least_squares E (fst (homography_system E src dst)) (snd (homography_system E src dst))"
    and inv: "length (np_lstsq E (fst (homography_system E dst src))
                 (snd (homography_system E dst src))) = 8"
  shows "\<exists>img' g'. augment_image E img (0, 0, real_of_int w, real_of_int h) True
            apply_moire_flag apply_glare_flag g = Inr ((img', enclosing dst), g')"
proof -
  from draws have src: "src = [(0, 0), (real_of_int w, 0), (real_of_int w, real_of_int h), (0, real_of_int h)]"
    and len: "length dst = 4"
    by (rule random_perspective_points_shape)+
  have W: "real_of_int w \<noteq> 0" and H: "real_of_int h \<noteq> 0" using w h by simp_all
  from canvas_corners_to_dst [OF exact W H src nd ls] obtain m where
    solve: "solve_homography E src dst = Inr m" and app: "apply_homography E src m = Inr dst"
    by blast
  have "length src = 4" by (simp add: src)
  with len inv obtain m' where "solve_homography E dst src = Inr m'"
    using reshape33_last [of "np_lstsq E (fst (homography_system E dst src)) (snd (homography_system E dst src))"]
    by (auto simp: solve_homography_four)
  then obtain coeffs where coeffs: "perspective_coeffs E dst src = Inr coeffs"
    by (simp add: perspective_coeffs_def err_bind_def)
  have persp: "augment_perspective E img (0, 0, real_of_int w, real_of_int h) g =
     Inr ((im_transform E img (w, h) coeffs, enclosing dst), g1)"
    by (rule augment_perspective_steps [OF size draws coeffs solve app [unfolded src]])
  obtain img' g' where
    "augment_photometric E (im_transform E img (w, h) coeffs) apply_moire_flag apply_glare_flag g1 = (img', g')"
    by (cases "augment_photometric E (im_transform E img (w, h) coeffs) apply_moire_flag apply_glare_flag g1")
  then have "augment_image E img (0, 0, real_of_int w, real_of_int h) True
            apply_moire_flag apply_glare_flag g = Inr ((img', enclosing dst), g')"
    by (simp add: augment_image_def persp)
  then show ?thesis by blast
qed

theorem warp_full_canvas_bbox_witness:
  "exact_arithmetic exact_env \<and>
   random_perspective_points exact_env 100 50 (float_op exact_env 0.08) [1/2, 1/4, 1, 1/2, 1/4, 1, 0, 3/4, 3/4, 3/4] =
     (([(0, 0), (100, 0), (100, 50), (0, 50)], [(4, 1), (92, 2), (98, 46), (0, 47)]), [3/4, 3/4]) \<and>
   nondegenerate_quad [(4, 1), (92, 2), (98, 46), (0, 47)] \<and>
   least_squares exact_env
     (fst (homography_system exact_env [(0, 0), (100, 0), (100, 50), (0, 50)] [(4, 1), (92, 2), (98, 46), (0, 47)]))
     (snd (homography_system exact_env [(0, 0), (100, 0), (100, 50), (0, 50)] [(4, 1), (92, 2), (98, 46), (0, 47)])) \<and>
   (\<exists>img' g'. augment_image exact_env (100, 50) (0, 0, 100, 50) True False False
        [1/2, 1/4, 1, 1/2, 1/4, 1, 0, 3/4, 3/4, 3/4] = Inr ((img', (0, 1, 98, 47)), g'))"
proof -
  let ?src = "[(0, 0), (100, 0), (100, 50), (0, 50)] :: point list"
  let ?dst = "[(4, 1), (92, 2), (98, 46), (0, 47)] :: point list"
  let ?g = "[1/2, 1/4, 1, 1/2, 1/4, 1, 0, 3/4, 3/4, 3/4] :: real list"
  have size: "im_size exact_env (100, 50) = (100, 50)" by (simp add: exact_fields)
  have nd: "nondegenerate_quad ?dst"
    by (simp add: nondegenerate_quad_def turn3_def)
  have zero: "residual (fst (homography_system exact_env ?src ?dst)) (snd (homography_system exact_env ?src ?dst))
      (np_lstsq exact_env (fst (homography_system exact_env ?src ?dst)) (snd (homography_system exact_env ?src ?dst))) = 0"
    by (simp add: sample_system exact_fields sample_solution residual_def dot_def)
  have ls: "least_squares exact_env (fst (homography_system exact_env ?src ?dst)) (snd (homography_system exact_env ?src ?dst))"
    unfolding least_squares_def zero
    by (simp add: exact_fields exact_lstsq_shape residual_nonneg)
  have inv: "length (np_lstsq exact_env (fst (homography_system exact_env ?dst ?src))
                 (snd (homography_system exact_env ?dst ?src))) = 8"
    by (simp add: exact_fields exact_lstsq_shape homography_system_def pair_rows_def)
  have "\<exists>img' g'. augment_image exact_env (100, 50) (0, 0, real_of_int 100, real_of_int 50) True False False ?g =
      Inr ((img', enclosing ?dst), g')"
    by (rule warp_full_canvas_bbox [OF exact_env_exact size _ _ sample_draws nd ls inv]) simp_all
  then have "\<exists>img' g'. augment_image exact_env (100, 50) (0, 0, 100, 50) True False False ?g =
      Inr ((img', (0, 1, 98, 47)), g')"
    by (simp add: enclosing_def)
  with exact_env_exact sample_draws nd ls show ?thesis by blast
qed

text \<open>
  C4. For every box and every canvas size, the encoder rejects (produces no line)
  exactly when the box clamped to \<open>[0, img_size]\<close> has \<open>x2 \<le> x1\<close> or \<open>y2 \<le> y1\<close>.
  A rejection leaves the label directory as it was; otherwise exactly the file at the
  given path is written. No division by zero can occur.
\<close>

theorem encoder_rejects_iff_degenerate:
  "(yolo_label_line bbox s c = Inr None \<longleftrightarrow>
      (case clamp_bbox bbox s of (x1, y1, x2, y2) \<Rightarrow> x2 \<le> x1 \<or> y2 \<le> y1))
   \<and> (yolo_label_line bbox s c = Inr None \<longrightarrow> save_yolo_label fs path bbox s c = Inr fs)
   \<and> (yolo_label_line bbox s c \<noteq> Inr None \<longrightarrow>
        (\<exists>l. yolo_label_line bbox s c = Inr (Some l) \<and>
             save_yolo_label fs path bbox s c = Inr (fs(path \<mapsto> l))))"
proof (intro conjI impI)
  show "yolo_label_line bbox s c = Inr None \<longleftrightarrow>
      (case clamp_bbox bbox s of (x1, y1, x2, y2) \<Rightarrow> x2 \<le> x1 \<or> y2 \<le> y1)"
    by (rule yolo_label_line_reject)
next
  assume "yolo_label_line bbox s c = Inr None"
  then show "save_yolo_label fs path bbox s c = Inr fs"
    by (simp add: save_yolo_label_def)
next
  assume ne: "yolo_label_line bbox s c \<noteq> Inr None"
  have "yolo_label_line bbox s c \<noteq> Inl e" for e by (rule yolo_label_line_total)
  with ne obtain l where "yolo_label_line bbox s c = Inr (Some l)"
    by (cases "yolo_label_line bbox s c") auto
  then show "\<exists>l. yolo_label_line bbox s c = Inr (Some l) \<and>
             save_yolo_label fs path bbox s c = Inr (fs(path \<mapsto> l))"
    by (simp add: save_yolo_label_def)
qed

theorem encoder_rejects_iff_degenerate_witness:
  "yolo_label_line (5, 0, 5, 320) 320 0 = Inr None \<and>
   save_yolo_label Map.empty ''000001.txt'' (5, 0, 5, 320) 320 0 = Inr Map.empty \<and>
   yolo_label_line (0, 0, 320, 320) 320 0 \<noteq> Inr None \<and>
   (\<exists>l. save_yolo_label Map.empty ''000001.txt'' (0, 0, 320, 320) 320 0 =
          Inr [''000001.txt'' \<mapsto> l])"
proof -
  have r: "yolo_label_line (5, 0, 5, 320) 320 0 = Inr None"
    by (simp add: yolo_label_line_def clamp_def)
  have a: "yolo_label_line (0, 0, 320, 320) 320 0 \<noteq> Inr None"
    by (simp add: yolo_label_line_def clamp_def py_div_def err_bind_def Let_def)
  from encoder_rejects_iff_degenerate [of "(5, 0, 5, 320)" 320 0 Map.empty "''000001.txt''"] r
  have 1: "save_yolo_label Map.empty ''000001.txt'' (5, 0, 5, 320) 320 0 = Inr Map.empty"
    by blast
  from encoder_rejects_iff_degenerate [of "(0, 0, 320, 320)" 320 0 Map.empty "''000001.txt''"] a
  have 2: "\<exists>l. save_yolo_label Map.empty ''000001.txt'' (0, 0, 320, 320) 320 0 =
          Inr [''000001.txt'' \<mapsto> l]"
    by blast
  from r a 1 2 show ?thesis by blast
qed

text \<open>
  C5. \<^verbatim>\<open>solve_homography\<close> raises the count error exactly when one of the two lists
  has not 4 points. For 4 and 4 points, and \<^verbatim>\<open>lstsq\<close> returning its eight unknowns,
  it returns a matrix whose bottom-right entry is 1.
\<close>

theorem solve_homography_count:
  "(solve_homography E src dst = Inl InvalidCorrespondenceCount \<longleftrightarrow>
      length src \<noteq> 4 \<or> length dst \<noteq> 4) \<and>
   (length src = 4 \<and> length dst = 4 \<and>
    length (np_lstsq E (fst (homography_system E src dst)) (snd (homography_system E src dst))) = 8 \<longrightarrow>
      (\<exists>m. solve_homography E src dst = Inr m \<and> entry22 m = 1))"
proof (intro conjI impI)
  show "solve_homography E src dst = Inl InvalidCorrespondenceCount \<longleftrightarrow>
      length src \<noteq> 4 \<or> length dst \<noteq> 4"
  proof (cases "length src = 4 \<and> length dst = 4")
    case True
    then have "solve_homography E src dst =
       reshape33 (np_lstsq E (fst (homography_system E src dst)) (snd (homography_system E src dst)) @ [1])"
      by (simp add: solve_homography_four)
    moreover have "reshape33 xs \<noteq> Inl InvalidCorrespondenceCount" for xs
      by (simp add: reshape33_def)
    ultimately show ?thesis using True by simp
  next
    case False
    then show ?thesis by (auto simp: solve_homography_wrong_count)
  qed
next
  assume h: "length src = 4 \<and> length dst = 4 \<and>
    length (np_lstsq E (fst (homography_system E src dst)) (snd (homography_system E src dst))) = 8"
  then have "solve_homography E src dst =
       reshape33 (np_lstsq E (fst (homography_system E src dst)) (snd (homography_system E src dst)) @ [1])"
    by (simp add: solve_homography_four)
  with h show "\<exists>m. solve_homography E src dst = Inr m \<and> entry22 m = 1"
    using reshape33_last by simp
qed

theorem solve_homography_count_witness:
  "length (np_lstsq tape_env
      (fst (homography_system tape_env [(0, 0), (100, 0), (100, 50), (0, 50)] [(4, 1), (92, 2), (98, 46), (0, 47)]))
      (snd (homography_system tape_env [(0, 0), (100, 0), (100, 50), (0, 50)] [(4, 1), (92, 2), (98, 46), (0, 47)]))) = 8 \<and>
   (\<exists>m. solve_homography tape_env [(0, 0), (100, 0), (100, 50), (0, 50)]
          [(4, 1), (92, 2), (98, 46), (0, 47)] = Inr m \<and> entry22 m = 1) \<and>
   solve_homography tape_env [(0, 0), (100, 0), (100, 50)] [(4, 1), (92, 2), (98, 46)] =
     Inl InvalidCorrespondenceCount"
proof -
  have len: "length (np_lstsq tape_env
      (fst (homography_system tape_env [(0, 0), (100, 0), (100, 50), (0, 50)] [(4, 1), (92, 2), (98, 46), (0, 47)]))
      (snd (homography_system tape_env [(0, 0), (100, 0), (100, 50), (0, 50)] [(4, 1), (92, 2), (98, 46), (0, 47)]))) = 8"
    by (simp add: tape_fields exact_lstsq_shape system_shape)
  have ok: "\<exists>m. solve_homography tape_env [(0, 0), (100, 0), (100, 50), (0, 50)]
          [(4, 1), (92, 2), (98, 46), (0, 47)] = Inr m \<and> entry22 m = 1"
    by (rule solve_homography_count [THEN conjunct2, THEN mp]) (simp add: len)
  have bad: "solve_homography tape_env [(0, 0), (100, 0), (100, 50)] [(4, 1), (92, 2), (98, 46)] =
     Inl InvalidCorrespondenceCount"
    by (rule solve_homography_count [THEN conjunct1, THEN iffD2]) simp
  show ?thesis by (intro conjI len ok bad)
qed

text \<open>
  C6, as the specification words it, fails: on the default canvas of 320 the scale
  13/128 gives the product 32.5 and the target 32, and on a canvas of 50 the scale 0.08
  (the double nearest to it) gives a product just above 4 and the target 8.
\<close>

theorem resize_target_counterexample:
  "resize_target 320 320 (13/128) = Inr 32 \<and>
   real_of_int 32 \<noteq> real_of_int (min 320 320) * (13/128) \<and>
   resize_target 50 50 (fl64 (2/25)) = Inr 8 \<and>
   real_of_int 8 \<noteq> real_of_int (min 50 50) * fl64 (2/25)"
proof -
  have "resize_target 50 50 (fl64 (2/25)) = Inr 8"
    by (rule resize_target_small) (simp_all add: double_008)
  moreover have "real_of_int 8 \<noteq> real_of_int (min 50 50) * fl64 (2/25)"
    by (simp add: double_008)
  ultimately show ?thesis
    using target_320_half by simp
qed

text \<open>
  C6, amended. The long side handed to the resize is the larger of 8 and the integer
  part of the product \<open>scale \<times> min(canvas w, h)\<close> as the float multiplication rounds it;
  \<^verbatim>\<open>int\<close> raises \<^verbatim>\<open>OverflowError\<close> when the rounded product is infinite. For a product
  \<open>p\<close> between 0 and \<open>2\<^sup>5\<^sup>3\<close> a target is returned, it lies between the larger of 8 and
  \<open>\<lfloor>p\<rfloor>\<close> and the larger of 8 and \<open>\<lceil>p\<rceil>\<close>, and it equals the product exactly when the
  product is a whole number that is at least 8.
\<close>

theorem resize_target_rounded_floor:
  "resize_target cw ch scale =
     (if 2 ^ 1024 \<le> \<bar>fl64 (real_of_int (min cw ch) * scale)\<bar> then Inl OverflowError
      else Inr (max 8 \<lfloor>fl64 (real_of_int (min cw ch) * scale)\<rfloor>)) \<and>
   (0 \<le> real_of_int (min cw ch) * scale \<and> real_of_int (min cw ch) * scale \<le> 2 ^ 53 \<longrightarrow>
      (\<exists>t. resize_target cw ch scale = Inr t \<and>
           max 8 \<lfloor>real_of_int (min cw ch) * scale\<rfloor> \<le> t \<and>
           t \<le> max 8 \<lceil>real_of_int (min cw ch) * scale\<rceil> \<and>
           (real_of_int t = real_of_int (min cw ch) * scale \<longleftrightarrow>
              real_of_int (min cw ch) * scale \<in> \<int> \<and> 8 \<le> real_of_int (min cw ch) * scale)))"
proof (intro conjI impI)
  show "resize_target cw ch scale =
     (if 2 ^ 1024 \<le> \<bar>fl64 (real_of_int (min cw ch) * scale)\<bar> then Inl OverflowError
      else Inr (max 8 \<lfloor>fl64 (real_of_int (min cw ch) * scale)\<rfloor>))"
    by (rule resize_target_value)
next
  assume "0 \<le> real_of_int (min cw ch) * scale \<and> real_of_int (min cw ch) * scale \<le> 2 ^ 53"
  then show "\<exists>t. resize_target cw ch scale = Inr t \<and>
           max 8 \<lfloor>real_of_int (min cw ch) * scale\<rfloor> \<le> t \<and>
           t \<le> max 8 \<lceil>real_of_int (min cw ch) * scale\<rceil> \<and>
           (real_of_int t = real_of_int (min cw ch) * scale \<longleftrightarrow>
              real_of_int (min cw ch) * scale \<in> \<int> \<and> 8 \<le> real_of_int (min cw ch) * scale)"
    by (intro resize_target_bounds) simp_all
qed

theorem resize_target_rounded_floor_witness:
  "0 \<le> real_of_int (min 320 320) * fl64 (3/20) \<and>
   real_of_int (min 320 320) * fl64 (3/20) \<le> 2 ^ 53 \<and>
   \<lfloor>real_of_int (min 320 320) * fl64 (3/20)\<rfloor> = 47 \<and>
   \<lceil>real_of_int (min 320 320) * fl64 (3/20)\<rceil> = 48 \<and>
   resize_target 320 320 (fl64 (3/20)) = Inr 48 \<and>
   (\<exists>t. resize_target 320 320 (fl64 (3/20)) = Inr t \<and>
        max 8 \<lfloor>real_of_int (min 320 320) * fl64 (3/20)\<rfloor> \<le> t \<and>
        t \<le> max 8 \<lceil>real_of_int (min 320 320) * fl64 (3/20)\<rceil>)"
proof -
  have a: "0 \<le> real_of_int (min 320 320) * fl64 (3/20)"
    and b: "real_of_int (min 320 320) * fl64 (3/20) \<le> 2 ^ 53"
    by (simp_all add: double_015)
  have f: "\<lfloor>real_of_int (min 320 320) * fl64 (3/20)\<rfloor> = 47"
    and c: "\<lceil>real_of_int (min 320 320) * fl64 (3/20)\<rceil> = 48"
    by (simp_all add: double_015 floor_eq_iff ceiling_eq_iff)
  have "\<exists>t. resize_target 320 320 (fl64 (3/20)) = Inr t \<and>
        max 8 \<lfloor>real_of_int (min 320 320) * fl64 (3/20)\<rfloor> \<le> t \<and>
        t \<le> max 8 \<lceil>real_of_int (min 320 320) * fl64 (3/20)\<rceil> \<and>
        (real_of_int t = real_of_int (min 320 320) * fl64 (3/20) \<longleftrightarrow>
           real_of_int (min 320 320) * fl64 (3/20) \<in> \<int> \<and> 8 \<le> real_of_int (min 320 320) * fl64 (3/20))"
    by (rule resize_target_rounded_floor [of 320 320 "fl64 (3/20)", THEN conjunct2, THEN mp])
       (intro conjI a b)
  then have "\<exists>t. resize_target 320 320 (fl64 (3/20)) = Inr t \<and>
        max 8 \<lfloor>real_of_int (min 320 320) * fl64 (3/20)\<rfloor> \<le> t \<and>
        t \<le> max 8 \<lceil>real_of_int (min 320 320) * fl64 (3/20)\<rceil>"
    by blast
  with a b f c target_320_015 show ?thesis by blast
qed

text \<open>
  C7. The code at a foreground as large as the canvas: the offsets are drawn from 0 to 1,
  not from the single point 0, and the draw 1 puts the box at \<open>(1, 1, 321, 321)\<close> on a
  canvas of side 320.
\<close>

theorem placement_overflows_full_canvas:
  "placement_max 320 320 = 1 \<and>
   generate_one tape_env ''minimap'' ''champion'' 320 (1, 1) False False False [0, 1/2, 1/2, 1/2, 1/2] =
     Inr (((320, 320), (1, 1, 321, 321)), [])"
proof -
  have g: "generate_one tape_env ''minimap'' ''champion'' 320 (1, 1) False False False [0, 1/2, 1/2, 1/2, 1/2] =
     augment_image tape_env (alpha_paste tape_env (320, 320) (320, 320) (1, 1))
       (real_of_int 1, real_of_int 1, real_of_int (1 + 320), real_of_int (1 + 320)) False False False [1/2, 1/2]"
  proof (rule generate_one_steps)
    show "(if 0 < (320::int) then im_resize tape_env (pil_to_rgb tape_env (im_open tape_env ''minimap'')) (320, 320)
            else pil_to_rgb tape_env (im_open tape_env ''minimap'')) = (320, 320)"
      by (simp add: tape_fields)
    show "im_size tape_env (320, 320) = (320, 320)" by (simp add: tape_fields)
    show "(if im_mode tape_env (im_open tape_env ''champion'') \<noteq> ''RGBA''
           then im_convert tape_env (im_open tape_env ''champion'') ''RGBA''
           else im_open tape_env ''champion'') = (64, 64)"
      by (simp add: tape_fields)
    show "rnd_uniform tape_env 1 1 [0, 1/2, 1/2, 1/2, 1/2] = (1, [1/2, 1/2, 1/2, 1/2])"
      by (simp add: tape_uniform)
    show "resize_target 320 320 1 = Inr 320" by (rule target_320_1)
    show "resize_keep_aspect tape_env (64, 64) 320 = Inr (320, 320)" by (rule resize_square_320)
    show "im_size tape_env (320, 320) = (320, 320)" by (simp add: tape_fields)
    show "rnd_randint tape_env 0 (placement_max 320 320) [1/2, 1/2, 1/2, 1/2] = (1, [1/2, 1/2, 1/2])"
      by (simp add: placement_max_def tape_randint)
    show "rnd_randint tape_env 0 (placement_max 320 320) [1/2, 1/2, 1/2] = (1, [1/2, 1/2])"
      by (simp add: placement_max_def tape_randint)
  qed
  have "placement_max 320 320 = 1" by (simp add: placement_max_def)
  then show ?thesis
    unfolding g by (simp add: alpha_paste_def tape_fields augment_off)
qed

text \<open>
  C8. \<^verbatim>\<open>apply_homography\<close> never fails, whatever the rounding of the environment is:
  every point is cast to \<^verbatim>\<open>float32\<close>, multiplied by the matrix, and mapped to the two
  quotients by its weight, or returned as it came (uncast) when the weight is 0, so no
  quotient has a zero divisor, and the output has one point per input point. In the
  arithmetic of the program the cast shows: through the identity matrix the point
  \<open>(2\<^sup>2\<^sup>4 + 1, 0)\<close> comes out as \<open>(2\<^sup>2\<^sup>4, 0)\<close>, and the point \<open>(0.1, 0)\<close> under the weight
  row \<open>(1, 0, -0.1)\<close> has a non-zero weight and is divided.
\<close>

theorem apply_homography_total:
  "apply_homography E pts h =
     Inr (map (\<lambda>(x, y).
            case np_matvec E h (np_float32 E x, np_float32 E y, np_float32 E 1) of (tx, ty, tz) \<Rightarrow>
              if tz = 0 then (x, y) else (float_op E (tx / tz), float_op E (ty / tz))) pts) \<and>
   (\<exists>out. apply_homography E pts h = Inr out \<and> length out = length pts) \<and>
   apply_homography tape_env [(16777217, 0)] ((1, 0, 0), (0, 1, 0), (0, 0, 1)) =
     Inr [(16777216, 0)] \<and>
   apply_homography tape_env [(fl64 (1/10), 0)] ((1, 0, 0), (0, 1, 0), (1, 0, - fl64 (1/10))) =
     Inr [(268435461 / 4, 0)]"
proof -
  have "apply_homography E pts h =
     Inr (map (\<lambda>(x, y).
            case np_matvec E h (np_float32 E x, np_float32 E y, np_float32 E 1) of (tx, ty, tz) \<Rightarrow>
              if tz = 0 then (x, y) else (float_op E (tx / tz), float_op E (ty / tz))) pts)"
    by (rule apply_homography_value)
  then show ?thesis
    using identity_cast_point cast_point_divided by simp
qed

text \<open>
  C9. With the perspective toggle off, \<^verbatim>\<open>augment_image\<close> returns the box it was given,
  whatever the image, the two overlay flags and the random state are.
\<close>

theorem augment_image_keeps_bbox:
  "\<exists>img' g'. augment_image E img bbox False apply_moire_flag apply_glare_flag g =
     Inr ((img', bbox), g')"
  by (cases "augment_photometric E img apply_moire_flag apply_glare_flag g")
     (simp add: augment_image_def)

text \<open>
  C10, as the specification words it, fails on the printed fields: for the box
  \<open>(0, 0, 1/16384, 5)\<close> on a canvas of 256 the clamped box is not degenerate, the line is
  emitted, and its width, \<open>2\<^sup>-\<^sup>2\<^sup>2\<close> formatted with \<^verbatim>\<open>:.6f\<close>, prints as \<^verbatim>\<open>0.000000\<close>,
  which is not in \<open>(0, 1]\<close>.
\<close>

theorem label_width_prints_zero:
  "yolo_label_line (0, 0, 1/16384, 5) 256 0 =
     Inr (Some \<lparr>l_class = 0, l_cx = 0, l_cy = 9766 / 10 ^ 6, l_w = 0, l_h = 19531 / 10 ^ 6\<rparr>)
   \<and> \<not> 0 < l_w \<lparr>l_class = 0, l_cx = 0, l_cy = 9766 / 10 ^ 6, l_w = 0, l_h = 19531 / 10 ^ 6\<rparr>"
  using thin_box_line by simp

text \<open>
  C10, amended. Whenever the encoder emits a line for a canvas side of at most \<open>2\<^sup>5\<^sup>2\<close>
  (every side that fits in memory), the side is positive and each of the four printed
  fields, centre, width and height, lies in \<open>[0, 1]\<close>. The width and the height can print
  as 0.000000.
\<close>

theorem label_fields_in_unit_interval:
  assumes "yolo_label_line bbox s c = Inr (Some l)" and "s \<le> 2 ^ 52"
  shows "0 < s \<and> 0 \<le> l_cx l \<and> l_cx l \<le> 1 \<and> 0 \<le> l_cy l \<and> l_cy l \<le> 1
         \<and> 0 \<le> l_w l \<and> l_w l \<le> 1 \<and> 0 \<le> l_h l \<and> l_h l \<le> 1"
proof (cases bbox)
  case (fields x1 y1 x2 y2)
  note e = yolo_label_line_emitted [OF assms(1) [unfolded fields]]
  have pos: "0 < s" by (rule e(1))
  then have S: "(0::real) \<le> real_of_int s" by simp
  have cx: "0 \<le> l_cx l \<and> l_cx l \<le> 1"
    unfolding e(4) using centre_unit [OF pos assms(2), of "clamp x1 0 (real_of_int s)" "clamp x2 0 (real_of_int s)"]
    by (simp add: clamp_lower clamp_upper [OF S] fmt6_unit)
  have cy: "0 \<le> l_cy l \<and> l_cy l \<le> 1"
    unfolding e(4) using centre_unit [OF pos assms(2), of "clamp y1 0 (real_of_int s)" "clamp y2 0 (real_of_int s)"]
    by (simp add: clamp_lower clamp_upper [OF S] fmt6_unit)
  have w: "0 \<le> l_w l \<and> l_w l \<le> 1"
    unfolding e(4) using extent_unit [OF pos assms(2), of "clamp x1 0 (real_of_int s)" "clamp x2 0 (real_of_int s)"] e(2)
    by (simp add: clamp_lower clamp_upper [OF S] fmt6_unit)
  have h: "0 \<le> l_h l \<and> l_h l \<le> 1"
    unfolding e(4) using extent_unit [OF pos assms(2), of "clamp y1 0 (real_of_int s)" "clamp y2 0 (real_of_int s)"] e(3)
    by (simp add: clamp_lower clamp_upper [OF S] fmt6_unit)
  from pos cx cy w h show ?thesis by simp
qed

theorem label_fields_in_unit_interval_witness:
  "yolo_label_line (10, 20, 50, 100) 320 0 =
     Inr (Some \<lparr>l_class = 0, l_cx = 3/32, l_cy = 3/16, l_w = 1/8, l_h = 1/4\<rparr>) \<and>
   (320::int) \<le> 2 ^ 52 \<and>
   (0::int) < 320 \<and> (0::real) \<le> 3/32 \<and> (3/32::real) \<le> 1 \<and> (0::real) \<le> 1/8 \<and> (1/8::real) \<le> 1"
proof -
  have "(320::int) \<le> 2 ^ 52" by simp
  from label_fields_in_unit_interval [OF plain_box_line this] plain_box_line show ?thesis by simp
qed

end
